(* ===== verification/Prelude.thy ===== *)
theory Prelude
  imports Main "HOL-Library.Word" "HOL-Library.AList"
begin

text \<open>
  Shared vocabulary of the development: the machine integers of the crate, the
  big-endian byte conversions of the Rust standard library, hash maps, results of
  operations that can panic, and the generic invariant and codec interfaces that
  the components instantiate.
\<close>

unbundle bit_operations_syntax

named_theorems be_simps \<comment> \<open>evaluation of big-endian conversions\<close>
named_theorems hm_simps \<comment> \<open>lookups after hash-map updates\<close>

section \<open>Machine integers\<close>

type_synonym u8 = "8 word"
type_synonym u16 = "16 word"
type_synonym u32 = "32 word"
type_synonym u64 = "64 word"
type_synonym bytes = "u8 list"

text \<open>\<open>u16::to_be_bytes\<close>, \<open>u32::to_be_bytes\<close> and their inverses.\<close>

definition be16 :: "u16 \<Rightarrow> bytes" where
  "be16 w = [ucast (drop_bit 8 w), ucast w]"

definition be32 :: "u32 \<Rightarrow> bytes" where
  "be32 w = [ucast (drop_bit 24 w), ucast (drop_bit 16 w), ucast (drop_bit 8 w), ucast w]"

definition of_be16 :: "u8 \<Rightarrow> u8 \<Rightarrow> u16" where
  "of_be16 a b = push_bit 8 (ucast a) OR ucast b"

definition of_be32 :: "u8 \<Rightarrow> u8 \<Rightarrow> u8 \<Rightarrow> u8 \<Rightarrow> u32" where
  "of_be32 a b c d =
     push_bit 24 (ucast a) OR push_bit 16 (ucast b) OR push_bit 8 (ucast c) OR ucast d"

lemma length_be16 [simp]: "length (be16 w) = 2"
  by (simp add: be16_def)

lemma length_be32 [simp]: "length (be32 w) = 4"
  by (simp add: be32_def)

lemma of_be16_be16 [be_simps]: "of_be16 (ucast (drop_bit 8 w)) (ucast w) = w"
  unfolding of_be16_def by (rule bit_word_eqI) (auto simp: bit_simps)

lemma of_be32_be32 [be_simps]:
  "of_be32 (ucast (drop_bit 24 w)) (ucast (drop_bit 16 w)) (ucast (drop_bit 8 w)) (ucast w) = w"
proof (unfold of_be32_def, rule bit_word_eqI)
  fix n :: nat
  assume "n < LENGTH(32)"
  then have "n < 8 \<or> (8 \<le> n \<and> n < 16) \<or> (16 \<le> n \<and> n < 24) \<or> (24 \<le> n \<and> n < 32)" by auto
  then show "bit (push_bit 24 (ucast (ucast (drop_bit 24 w) :: u8)) OR
      push_bit 16 (ucast (ucast (drop_bit 16 w) :: u8)) OR
      push_bit 8 (ucast (ucast (drop_bit 8 w) :: u8)) OR ucast (ucast w :: u8) :: u32) n = bit w n"
    by (elim disjE) (auto simp: bit_simps)
qed

lemma be16_of_be16 [be_simps]: "be16 (of_be16 a b) = [a, b]"
proof -
  have "ucast (drop_bit 8 (of_be16 a b)) = a"
    unfolding of_be16_def by (rule bit_word_eqI) (auto simp: bit_simps dest: bit_imp_le_length)
  moreover have "ucast (of_be16 a b) = b"
    unfolding of_be16_def by (rule bit_word_eqI) (auto simp: bit_simps)
  ultimately show ?thesis by (simp add: be16_def)
qed

lemma be32_of_be32 [be_simps]: "be32 (of_be32 a b c d) = [a, b, c, d]"
proof -
  have "ucast (drop_bit 24 (of_be32 a b c d)) = a"
    unfolding of_be32_def by (rule bit_word_eqI) (auto simp: bit_simps dest: bit_imp_le_length)
  moreover have "ucast (drop_bit 16 (of_be32 a b c d)) = b"
    unfolding of_be32_def by (rule bit_word_eqI) (auto simp: bit_simps dest: bit_imp_le_length)
  moreover have "ucast (drop_bit 8 (of_be32 a b c d)) = c"
    unfolding of_be32_def by (rule bit_word_eqI) (auto simp: bit_simps dest: bit_imp_le_length)
  moreover have "ucast (of_be32 a b c d) = d"
    unfolding of_be32_def by (rule bit_word_eqI) (auto simp: bit_simps)
  ultimately show ?thesis by (simp add: be32_def)
qed

lemma of_be16_nth: "of_be16 (be16 w ! 0) (be16 w ! 1) = w"
  by (simp add: be16_def of_be16_be16)

lemma of_be32_nth: "of_be32 (be32 w ! 0) (be32 w ! 1) (be32 w ! 2) (be32 w ! 3) = w"
  by (simp add: be32_def of_be32_be32)

lemma be16_inj: "be16 v = be16 w \<Longrightarrow> v = w"
  by (metis of_be16_nth)

lemma be32_inj: "be32 v = be32 w \<Longrightarrow> v = w"
  by (metis of_be32_nth)


lemma unat_of_nat_u16: "n < 65536 \<Longrightarrow> unat (of_nat n :: u16) = n"
  by (simp add: unat_of_nat)

lemma unat_of_nat_u32: "n < 4294967296 \<Longrightarrow> unat (of_nat n :: u32) = n"
  by (simp add: unat_of_nat)

lemma unat_of_nat_u64: "n < 18446744073709551616 \<Longrightarrow> unat (of_nat n :: u64) = n"
  by (simp add: unat_of_nat)

lemma unat_Suc_less: "unat w < unat v \<Longrightarrow> unat (w + 1) = Suc (unat w)"
  for w v :: "'a::len word"
  by unat_arith

section \<open>Panics\<close>

text \<open>
  Rust code can panic: a slice index out of range, or (in a debug build) an
  arithmetic overflow. A routine with such a step has type \<open>'a exec\<close>: \<open>None\<close> is
  the panic, \<open>Some r\<close> the normal return. \<open>idx\<close> and \<open>slice\<close> are the panicking reads
  \<open>xs[i]\<close> and \<open>&xs[i..j]\<close>; \<open>checked_inc\<close> is \<open>+= 1\<close> with the overflow check.
\<close>

type_synonym 'a exec = "'a option"

definition idx :: "'a list \<Rightarrow> nat \<Rightarrow> 'a exec" where
  "idx xs i = (if i < length xs then Some (xs ! i) else None)"

definition slice :: "'a list \<Rightarrow> nat \<Rightarrow> nat \<Rightarrow> 'a list exec" where
  "slice xs i j = (if i \<le> j \<and> j \<le> length xs then Some (take (j - i) (drop i xs)) else None)"

definition checked_inc :: "'a::len word \<Rightarrow> 'a word exec" where
  "checked_inc w = (if w = - 1 then None else Some (w + 1))"

lemma idx_in [simp]: "i < length xs \<Longrightarrow> idx xs i = Some (xs ! i)"
  by (simp add: idx_def)

lemma slice_in [simp]:
  "i \<le> j \<Longrightarrow> j \<le> length xs \<Longrightarrow> slice xs i j = Some (take (j - i) (drop i xs))"
  by (simp add: slice_def)

lemma checked_inc_below: "w < v \<Longrightarrow> checked_inc w = Some (w + 1)"
  using word_order.extremum [of v] by (auto simp: checked_inc_def)

section \<open>Hash maps\<close>

text \<open>
  A \<open>HashMap\<close> is an association list with distinct keys. Its list order is the
  order in which the map's iterators visit the entries. Rust leaves that order
  unspecified, so properties are stated for every list order.
\<close>

type_synonym ('k, 'v) hmap = "('k \<times> 'v) list"

definition hm_get :: "('k, 'v) hmap \<Rightarrow> 'k \<Rightarrow> 'v option" where
  "hm_get m k = map_of m k"

definition hm_insert :: "'k \<Rightarrow> 'v \<Rightarrow> ('k, 'v) hmap \<Rightarrow> ('k, 'v) hmap" where
  "hm_insert k v m = AList.update k v m"

definition hm_remove :: "'k \<Rightarrow> ('k, 'v) hmap \<Rightarrow> ('k, 'v) hmap" where
  "hm_remove k m = AList.delete k m"

definition hm_keys :: "('k, 'v) hmap \<Rightarrow> 'k list" where
  "hm_keys m = map fst m"

definition hm_contains :: "('k, 'v) hmap \<Rightarrow> 'k \<Rightarrow> bool" where
  "hm_contains m k = (hm_get m k \<noteq> None)"

definition hm_ok :: "('k, 'v) hmap \<Rightarrow> bool" where
  "hm_ok m = distinct (hm_keys m)"

lemma hm_get_empty [simp, hm_simps]: "hm_get [] k = None"
  by (simp add: hm_get_def)

lemma dom_hm_get_empty [simp]: "dom (hm_get []) = {}"
  by auto

lemma hm_get_Cons [hm_simps]: "hm_get ((j, v) # m) k = (if j = k then Some v else hm_get m k)"
  by (simp add: hm_get_def)

lemma hm_get_insert [simp, hm_simps]:
  "hm_get (hm_insert k v m) j = (if j = k then Some v else hm_get m j)"
  by (simp add: hm_get_def hm_insert_def update_conv')

lemma hm_get_remove [simp, hm_simps]:
  "hm_get (hm_remove k m) j = (if j = k then None else hm_get m j)"
  by (simp add: hm_get_def hm_remove_def delete_conv')

lemma hm_get_fun_insert: "hm_get (hm_insert k v m) = (hm_get m)(k \<mapsto> v)"
  by (rule ext) simp

lemma hm_get_fun_remove: "hm_get (hm_remove k m) = (hm_get m)(k := None)"
  by (rule ext) simp

lemma hm_ok_empty [simp]: "hm_ok []"
  by (simp add: hm_ok_def hm_keys_def)

lemma hm_ok_insert [simp, intro]: "hm_ok m \<Longrightarrow> hm_ok (hm_insert k v m)"
  by (simp add: hm_ok_def hm_keys_def hm_insert_def distinct_update)

lemma hm_ok_remove [simp, intro]: "hm_ok m \<Longrightarrow> hm_ok (hm_remove k m)"
  by (simp add: hm_ok_def hm_keys_def hm_remove_def distinct_delete)

lemma hm_keys_dom: "set (hm_keys m) = dom (hm_get m)"
  by (simp add: hm_keys_def hm_get_def [abs_def] dom_map_of_conv_image_fst)

lemma hm_get_in_set: "hm_get m k = Some v \<Longrightarrow> (k, v) \<in> set m"
  by (simp add: hm_get_def map_of_SomeD)

lemma hm_in_set_get: "hm_ok m \<Longrightarrow> (k, v) \<in> set m \<Longrightarrow> hm_get m k = Some v"
  by (simp add: hm_get_def hm_ok_def hm_keys_def)

lemma hm_length: "hm_ok m \<Longrightarrow> length m = card (dom (hm_get m))"
  by (metis distinct_card hm_keys_def hm_keys_dom hm_ok_def length_map)

lemma hm_length_insert:
  assumes "hm_ok m"
  shows "length (hm_insert k v m) = (if hm_get m k = None then Suc (length m) else length m)"
proof -
  have fin: "finite (dom (hm_get m))"
    by (metis hm_keys_dom List.finite_set)
  have "length (hm_insert k v m) = card (insert k (dom (hm_get m)))"
    using assms by (simp add: hm_length hm_get_fun_insert)
  then show ?thesis
    using fin assms by (auto simp: hm_length card_insert_if domIff)
qed

lemma hm_length_remove: "length (hm_remove k m) \<le> length m"
  by (simp add: hm_remove_def length_delete_le)

section \<open>Generic interfaces\<close>

text \<open>
  \<open>step_system\<close>: a component is driven by a sequence of inputs, and each input keeps
  an invariant. Its interpretations lift every component's one-step lemma to runs.
\<close>

locale step_system =
  fixes step :: "'s \<Rightarrow> 'e \<Rightarrow> 's"
    and inv :: "'s \<Rightarrow> bool"
  assumes step_inv: "inv s \<Longrightarrow> inv (step s e)"
begin

lemma run_inv: "inv s \<Longrightarrow> inv (foldl step s es)"
  by (induction es arbitrary: s) (simp_all add: step_inv)

lemma run_prefix_inv: "inv s \<Longrightarrow> inv (foldl step s (take n es))"
  by (rule run_inv)

end

text \<open>
  \<open>codec\<close>: what a serialised form promises its reader. \<open>canonical_codec\<close> adds that a
  value has exactly one accepted form.
\<close>

locale codec =
  fixes enc :: "'a \<Rightarrow> 'b"
    and dec :: "'b \<Rightarrow> 'a option"
  assumes dec_enc: "dec (enc x) = Some x"
begin

lemma enc_inj: "enc x = enc y \<Longrightarrow> x = y"
  by (metis dec_enc option.inject)

lemma dec_range: "\<exists>b. dec b = Some x"
  using dec_enc by blast

end

locale canonical_codec = codec +
  assumes enc_dec: "dec b = Some x \<Longrightarrow> enc x = b"
begin

lemma dec_inj: "dec b = Some x \<Longrightarrow> dec c = Some x \<Longrightarrow> b = c"
  by (metis enc_dec)

lemma dec_iff: "dec b = Some x \<longleftrightarrow> b = enc x"
  by (metis dec_enc enc_dec)

lemma dec_none_iff: "dec b = None \<longleftrightarrow> b \<notin> range enc"
  by (metis dec_enc enc_dec image_iff option.distinct(1) option.exhaust rangeI)

end

end
