(* ===== verification/Wire_Frame.thy ===== *)
theory Wire_Frame
  imports Prelude
begin

text \<open>
  The binary frame of protocol v2 (\<open>wire/frame.rs\<close>): a 9-byte big-endian header
  followed by the payload, and the frame's datagram flag. The codec interface is
  interpreted on the two routines.
\<close>

definition VERSION :: u8 where
  "VERSION = 2"

definition HEADER_LEN :: nat where
  "HEADER_LEN = 9"

definition FLAG_DATAGRAM :: u8 where
  "FLAG_DATAGRAM = 1"

record frame =
  service :: u8
  channel :: u16
  flags :: u8
  seq :: u32
  payload :: bytes

definition frame_encode :: "frame \<Rightarrow> bytes" where
  "frame_encode f =
     [VERSION] @ [service f] @ be16 (channel f) @ [flags f] @ be32 (seq f) @ payload f"

definition frame_decode :: "bytes \<Rightarrow> frame option" where
  "frame_decode bs =
     (if length bs < HEADER_LEN \<or> bs ! 0 \<noteq> VERSION then None
      else Some \<lparr>service = bs ! 1,
                 channel = of_be16 (bs ! 2) (bs ! 3),
                 flags = bs ! 4,
                 seq = of_be32 (bs ! 5) (bs ! 6) (bs ! 7) (bs ! 8),
                 payload = drop HEADER_LEN bs\<rparr>)"

definition is_datagram :: "frame \<Rightarrow> bool" where
  "is_datagram f = (flags f AND FLAG_DATAGRAM \<noteq> 0)"

lemma length_frame_encode: "length (frame_encode f) = HEADER_LEN + length (payload f)"
  by (simp add: frame_encode_def HEADER_LEN_def)

lemma frame_decode_encode: "frame_decode (frame_encode f) = Some f"
  by (simp add: frame_decode_def frame_encode_def HEADER_LEN_def be16_def be32_def be_simps)

lemma nine_bytes:
  assumes "9 \<le> length bs"
  shows "bs = [bs!0, bs!1] @ [bs!2, bs!3] @ [bs!4] @ [bs!5, bs!6, bs!7, bs!8] @ drop 9 bs"
proof -
  have "take 9 bs = map (\<lambda>i. bs ! i) [0..<9]"
    using assms by (intro nth_equalityI) auto
  moreover have "[0..<9] = [0::nat, 1, 2, 3, 4, 5, 6, 7, 8]"
    by (simp add: upt_rec)
  ultimately show ?thesis
    using append_take_drop_id [of 9 bs] by simp
qed

lemma frame_encode_decode:
  assumes "frame_decode bs = Some f"
  shows "frame_encode f = bs"
proof -
  from assms have len: "9 \<le> length bs" and ver: "bs ! 0 = VERSION"
    and f: "f = \<lparr>service = bs ! 1, channel = of_be16 (bs ! 2) (bs ! 3), flags = bs ! 4,
      seq = of_be32 (bs ! 5) (bs ! 6) (bs ! 7) (bs ! 8), payload = drop 9 bs\<rparr>"
    by (auto simp: frame_decode_def HEADER_LEN_def split: if_splits)
  show ?thesis
    by (subst nine_bytes [OF len]) (simp add: f frame_encode_def be_simps ver)
qed

interpretation frames: canonical_codec frame_encode frame_decode
  by unfold_locales (rule frame_decode_encode, rule frame_encode_decode)


section \<open>Properties\<close>

text \<open>
  C34: The frame codec is exact in both directions: a byte string decodes to a frame if and only
  if it is that frame's encoding, and it is rejected if and only if it is shorter than the
  header or carries another version byte.
\<close>

theorem frame_codec_exact:
  "(frame_decode bs = Some f \<longleftrightarrow> bs = frame_encode f) \<and>
   (frame_decode bs = None \<longleftrightarrow> \<not> (9 \<le> length bs \<and> bs ! 0 = VERSION))"
  using frames.dec_iff by (auto simp: frame_decode_def HEADER_LEN_def)

end
