(* ===== verification/Wire_Mux.thy ===== *)
theory Wire_Mux
  imports Prelude
begin

text \<open>
  The service identifiers of \<open>service.rs\<close> and the channel-id allocator of
  \<open>wire/mux.rs\<close>. The allocator is one atomic counter, so concurrent callers are
  served in some order, and a run of the allocator is a list of requests.
\<close>

datatype service_id = Messaging | Clipboard | Notification | CallHistory | Av | RemoteControl

datatype reliability = Reliable | Datagram

fun service_byte :: "service_id \<Rightarrow> u8" where
  "service_byte Messaging = 0"
| "service_byte Clipboard = 1"
| "service_byte Notification = 2"
| "service_byte CallHistory = 3"
| "service_byte Av = 4"
| "service_byte RemoteControl = 5"

record channel_allocator =
  next_id :: u16

definition allocator_new :: channel_allocator where
  "allocator_new = \<lparr>next_id = 1\<rparr>"

text \<open>\<open>fetch_add(1)\<close> returns the old value and wraps around.\<close>

definition alloc :: "channel_allocator \<Rightarrow> reliability \<Rightarrow> channel_allocator \<times> u16" where
  "alloc a r = (a\<lparr>next_id := next_id a + 1\<rparr>, next_id a)"

fun alloc_all :: "channel_allocator \<Rightarrow> reliability list \<Rightarrow> u16 list" where
  "alloc_all a [] = []"
| "alloc_all a (r # rs) = (let (a', c) = alloc a r in c # alloc_all a' rs)"

lemma service_byte_inj: "service_byte s = service_byte t \<Longrightarrow> s = t"
  by (cases s; cases t) simp_all

lemma length_alloc_all [simp]: "length (alloc_all a rs) = length rs"
  by (induction rs arbitrary: a) (auto simp: alloc_def)

lemma alloc_all_nth: "i < length rs \<Longrightarrow> alloc_all a rs ! i = next_id a + of_nat i"
proof (induction rs arbitrary: a i)
  case Nil
  then show ?case by simp
next
  case (Cons r rs)
  then show ?case
    by (cases i) (simp_all add: alloc_def algebra_simps)
qed

lemma of_nat_u16_inj: "i < 65536 \<Longrightarrow> j < 65536 \<Longrightarrow> (of_nat i :: u16) = of_nat j \<Longrightarrow> i = j"
  by (metis unat_of_nat_u16)

lemma alloc_all_distinct:
  assumes "length rs \<le> 65536"
  shows "distinct (alloc_all a rs)"
  unfolding distinct_conv_nth
proof (intro allI impI notI)
  fix i j
  assume "i < length (alloc_all a rs)" "j < length (alloc_all a rs)" "i \<noteq> j"
    and "alloc_all a rs ! i = alloc_all a rs ! j"
  then show False
    using assms of_nat_u16_inj [of i j] by (simp add: alloc_all_nth)
qed


section \<open>Properties\<close>

lemma alloc_all_new_unat:
  "map unat (alloc_all allocator_new rs) = map (\<lambda>i. (i + 1) mod 65536) [0..<length rs]"
proof (intro nth_equalityI)
  fix i
  assume i: "i < length (map unat (alloc_all allocator_new rs))"
  have "unat (1 + of_nat i :: u16) = (1 + i) mod 65536"
    using unat_of_nat [of "1 + i", where 'a = 16] by simp
  with i show "map unat (alloc_all allocator_new rs) ! i =
      map (\<lambda>i. (i + 1) mod 65536) [0..<length rs] ! i"
    by (simp add: alloc_all_nth allocator_new_def)
qed simp

lemma alloc_all_reuse:
  assumes "65536 < length rs"
  shows "\<not> distinct (alloc_all a rs)"
proof
  assume "distinct (alloc_all a rs)"
  then have "length rs = card (set (alloc_all a rs))" by (simp add: distinct_card)
  also have "\<dots> \<le> card (UNIV :: u16 set)" by (intro card_mono) simp_all
  also have "\<dots> = 65536" by (simp add: card_word)
  finally show False using assms by simp
qed

text \<open>
  The channel ids handed out are 1, 2, 3 and so on, wrapping through 0 after 65535, so they
  are pairwise different exactly as long as at most 65536 channels have been allocated.
\<close>

theorem channel_ids_wrap:
  "map unat (alloc_all allocator_new rs) = map (\<lambda>i. (i + 1) mod 65536) [0..<length rs] \<and>
   (distinct (alloc_all allocator_new rs) \<longleftrightarrow> length rs \<le> 65536)"
  using alloc_all_new_unat alloc_all_distinct alloc_all_reuse [of rs allocator_new]
  by (meson not_le)

end
