(* ===== verification/Chunking.thy ===== *)
theory Chunking
  imports Prelude "HOL-Library.Monad_Syntax" "HOL-Library.Multiset"
begin

text \<open>
  The application-level chunking of a punched UDP link (\<open>transport/punch.rs\<close>,
  \<open>send_chunked\<close>, \<open>Reasm\<close> and \<open>reasm_feed\<close>): a message is cut into datagrams with a
  12-byte header and put together again on the far side, whatever the order,
  duplication and interleaving of the datagrams.
\<close>

section \<open>Sending\<close>

definition CHUNK_MAGIC :: bytes where
  "CHUNK_MAGIC = [0x6d, 0x64, 0x63, 0x6b]" \<comment> \<open>\<open>b"mdck"\<close>\<close>

definition CHUNK_HDR :: nat where
  "CHUNK_HDR = 4 + 4 + 2 + 2"

definition CHUNK_PAYLOAD :: nat where
  "CHUNK_PAYLOAD = 1024"

definition REASM_MAX :: nat where
  "REASM_MAX = 256"

text \<open>\<open>slice::chunks\<close> of the standard library.\<close>

function chunks_of :: "nat \<Rightarrow> 'a list \<Rightarrow> 'a list list" where
  "chunks_of n xs = (if n = 0 \<or> xs = [] then [] else take n xs # chunks_of n (drop n xs))"
  by pat_completeness auto
termination
  by (relation "measure (\<lambda>(n, xs). length xs)") auto

declare chunks_of.simps [simp del]

definition split_chunks :: "bytes \<Rightarrow> bytes list" where
  "split_chunks data = (if data = [] then [[]] else chunks_of CHUNK_PAYLOAD data)"

text \<open>One datagram. \<open>total\<close> and the index are cast with \<open>as u16\<close>, which truncates.\<close>

definition chunk_pkt :: "u32 \<Rightarrow> u16 \<Rightarrow> nat \<Rightarrow> bytes \<Rightarrow> bytes" where
  "chunk_pkt msg_id tot i chunk =
     CHUNK_MAGIC @ be32 msg_id @ be16 tot @ be16 (of_nat i) @ chunk"

definition chunk_pkts :: "u32 \<Rightarrow> bytes \<Rightarrow> bytes list" where
  "chunk_pkts msg_id data =
     (let chunks = split_chunks data; tot = of_nat (length chunks)
      in map (\<lambda>(i, chunk). chunk_pkt msg_id tot i chunk) (enumerate 0 chunks))"

text \<open>
  The send loop: \<open>io k\<close> is the outcome of the \<open>k\<close>-th \<open>send_to\<close> (\<open>None\<close> is success),
  and the loop stops at the first failure. The result lists what left the socket.
\<close>

fun send_pkts :: "(nat \<Rightarrow> 'e option) \<Rightarrow> nat \<Rightarrow> bytes list \<Rightarrow> bytes list \<times> ('e + unit)" where
  "send_pkts io k [] = ([], Inr ())"
| "send_pkts io k (pkt # pkts) =
     (case io k of
        Some e \<Rightarrow> ([], Inl e)
      | None \<Rightarrow> (let (sent, r) = send_pkts io (Suc k) pkts in (pkt # sent, r)))"

definition send_chunked :: "(nat \<Rightarrow> 'e option) \<Rightarrow> u32 \<Rightarrow> bytes \<Rightarrow> bytes list \<times> ('e + unit)" where
  "send_chunked io msg_id data = send_pkts io 0 (chunk_pkts msg_id data)"

section \<open>Reassembly\<close>

record reasm =
  total :: u16
  received :: u16
  parts :: "bytes option list"

type_synonym pending = "(u32, reasm) hmap"

definition fresh_reasm :: "u16 \<Rightarrow> reasm" where
  "fresh_reasm n = \<lparr>total = n, received = 0, parts = replicate (unat n) None\<rparr>"

text \<open>The concatenation loop \<open>for p in done.parts { out.extend_from_slice(&p?) }\<close>.\<close>

fun join_parts :: "bytes option list \<Rightarrow> bytes option" where
  "join_parts [] = Some []"
| "join_parts (None # ps) = None"
| "join_parts (Some p # ps) = map_option ((@) p) (join_parts ps)"

text \<open>
  \<open>reasm_feed\<close> after its header checks. The outer option is the panic (an index out of
  range, an overflowing \<open>received += 1\<close>), the inner one the routine's result.
\<close>

definition reasm_accept ::
  "pending \<Rightarrow> u32 \<Rightarrow> u16 \<Rightarrow> u16 \<Rightarrow> bytes \<Rightarrow> (pending \<times> bytes option) exec" where
  "reasm_accept pending mid tot index payload =
     (let pending1 = (if length pending \<ge> REASM_MAX \<and> \<not> hm_contains pending mid
                      then [] else pending);
          entry = (case hm_get pending1 mid of Some e \<Rightarrow> e | None \<Rightarrow> fresh_reasm tot);
          pending2 = hm_insert mid entry pending1
      in if total entry \<noteq> tot then Some (pending2, None)
         else do {
           slot \<leftarrow> idx (parts entry) (unat index);
           entry' \<leftarrow> (case slot of
                        None \<Rightarrow> do {
                          n \<leftarrow> checked_inc (received entry);
                          Some (entry\<lparr>received := n, parts := (parts entry)[unat index := Some payload]\<rparr>)
                        }
                      | Some _ \<Rightarrow> Some entry);
           let pending3 = hm_insert mid entry' pending2;
           Some (if received entry' = total entry'
                 then (hm_remove mid pending3, join_parts (parts entry'))
                 else (pending3, None))
         })"

definition reasm_feed :: "pending \<Rightarrow> bytes \<Rightarrow> (pending \<times> bytes option) exec" where
  "reasm_feed pending pkt =
     (if length pkt < CHUNK_HDR \<or> take 4 pkt \<noteq> CHUNK_MAGIC then Some (pending, None)
      else let mid = of_be32 (pkt ! 4) (pkt ! 5) (pkt ! 6) (pkt ! 7);
               tot = of_be16 (pkt ! 8) (pkt ! 9);
               index = of_be16 (pkt ! 10) (pkt ! 11)
           in if tot = 0 \<or> index \<ge> tot then Some (pending, None)
              else reasm_accept pending mid tot index (drop CHUNK_HDR pkt))"

text \<open>Feeding a sequence of datagrams, with the result of each.\<close>

fun reasm_run :: "pending \<Rightarrow> bytes list \<Rightarrow> (pending \<times> bytes option list) exec" where
  "reasm_run pending [] = Some (pending, [])"
| "reasm_run pending (pkt # pkts) = do {
     (pending', r) \<leftarrow> reasm_feed pending pkt;
     (pending'', rs) \<leftarrow> reasm_run pending' pkts;
     Some (pending'', r # rs)
   }"


section \<open>The chunks of a message\<close>

lemma concat_chunks_of: "0 < n \<Longrightarrow> concat (chunks_of n xs) = xs"
proof (induction n xs rule: chunks_of.induct)
  case (1 n xs)
  show ?case
  proof (cases "xs = []")
    case True
    then show ?thesis by (simp add: chunks_of.simps)
  next
    case False
    with 1 have "concat (chunks_of n (drop n xs)) = drop n xs" by simp
    with False "1.prems" show ?thesis by (subst chunks_of.simps) simp
  qed
qed

lemma length_chunks_of: "0 < n \<Longrightarrow> length (chunks_of n xs) = (length xs + n - 1) div n"
proof (induction n xs rule: chunks_of.induct)
  case (1 n xs)
  show ?case
  proof (cases "xs = []")
    case True
    then show ?thesis using "1.prems" by (simp add: chunks_of.simps)
  next
    case False
    then have pos: "0 < length xs" by simp
    have "length (chunks_of n xs) = Suc ((length (drop n xs) + n - 1) div n)"
      using False 1 by (subst chunks_of.simps) simp
    also have "\<dots> = (length xs + n - 1) div n"
    proof (cases "n \<le> length xs")
      case True
      then obtain k where k: "length xs = n + k" using le_Suc_ex by blast
      have "length xs + n - 1 = (k + n - 1) + n" using k "1.prems" by simp
      then have "(length xs + n - 1) div n = (k + n - 1) div n + 1"
        using "1.prems" div_add_self2 [of n "k + n - 1"] by (metis gr_implies_not0)
      then show ?thesis using k by simp
    next
      case small: False
      have "length xs + n - 1 = (length xs - 1) + n" using pos by linarith
      then have "(length xs + n - 1) div n = (length xs - 1) div n + 1"
        using "1.prems" div_add_self2 [of n "length xs - 1"] by (metis gr_implies_not0)
      moreover have "(length xs - 1) div n = 0" "(n - 1) div n = 0"
        using small pos "1.prems" by auto
      ultimately show ?thesis using small by simp
    qed
    finally show ?thesis .
  qed
qed

lemma chunks_of_bounds: "c \<in> set (chunks_of n xs) \<Longrightarrow> c \<noteq> [] \<and> length c \<le> n"
proof (induction n xs rule: chunks_of.induct)
  case (1 n xs)
  then show ?case
    by (subst (asm) (2) chunks_of.simps) (auto split: if_splits)
qed

lemma concat_split_chunks: "concat (split_chunks data) = data"
  by (simp add: split_chunks_def CHUNK_PAYLOAD_def concat_chunks_of)

lemma length_split_chunks:
  "length (split_chunks data) = max 1 ((length data + 1023) div 1024)"
proof (cases "data = []")
  case True
  then show ?thesis by (simp add: split_chunks_def)
next
  case False
  then have "1 \<le> (length data + 1023) div 1024"
    by (cases data) (simp_all add: div_le_mono)
  with False show ?thesis
    by (simp add: split_chunks_def CHUNK_PAYLOAD_def length_chunks_of max_def)
qed

lemma split_chunks_pos [simp]: "0 < length (split_chunks data)" "split_chunks data \<noteq> []"
  using length_split_chunks [of data] by auto

lemma split_chunks_small: "c \<in> set (split_chunks data) \<Longrightarrow> length c \<le> CHUNK_PAYLOAD"
  by (auto simp: split_chunks_def split: if_splits dest: chunks_of_bounds)

lemma length_chunk_pkts [simp]: "length (chunk_pkts m data) = length (split_chunks data)"
  by (simp add: chunk_pkts_def Let_def)

lemma chunk_pkts_nth:
  "i < length (split_chunks data) \<Longrightarrow>
   chunk_pkts m data ! i =
     chunk_pkt m (of_nat (length (split_chunks data))) i (split_chunks data ! i)"
  by (simp add: chunk_pkts_def Let_def nth_enumerate_eq)

lemma length_chunk_pkt: "length (chunk_pkt m n i c) = CHUNK_HDR + length c"
  by (simp add: chunk_pkt_def CHUNK_MAGIC_def CHUNK_HDR_def)

lemma send_pkts_all_ok: "(\<And>j. io j = None) \<Longrightarrow> send_pkts io k pkts = (pkts, Inr ())"
  by (induction pkts arbitrary: k) simp_all

lemma send_pkts_prefix:
  "send_pkts io k pkts = (sent, r) \<Longrightarrow>
     \<exists>n. sent = take n pkts \<and> (r = Inr () \<longleftrightarrow> sent = pkts)"
proof (induction pkts arbitrary: k sent r)
  case Nil
  then show ?case by simp
next
  case (Cons pkt pkts)
  show ?case
  proof (cases "io k")
    case None
    obtain s' r' where rec: "send_pkts io (Suc k) pkts = (s', r')" by force
    from Cons.IH [OF rec] obtain n where "s' = take n pkts" "r' = Inr () \<longleftrightarrow> s' = pkts" by blast
    with Cons.prems None rec show ?thesis
      by (intro exI [of _ "Suc n"]) auto
  next
    case (Some e)
    with Cons.prems show ?thesis by (intro exI [of _ 0]) auto
  qed
qed


section \<open>The reassembler's invariant\<close>

definition filled :: "'a option list \<Rightarrow> nat" where
  "filled ps = length (filter (\<lambda>p. p \<noteq> None) ps)"

text \<open>
  An entry in the table is incomplete, has one slot per announced chunk, and counts
  its filled slots.
\<close>

definition reasm_ok :: "reasm \<Rightarrow> bool" where
  "reasm_ok e = (length (parts e) = unat (total e) \<and> unat (received e) = filled (parts e) \<and>
     received e < total e)"

definition pending_ok :: "pending \<Rightarrow> bool" where
  "pending_ok p = (hm_ok p \<and> length p \<le> REASM_MAX \<and> (\<forall>m e. hm_get p m = Some e \<longrightarrow> reasm_ok e))"

lemma filled_replicate [simp]: "filled (replicate n None) = 0"
  by (simp add: filled_def)

lemma filled_le: "filled ps \<le> length ps"
  by (simp add: filled_def)

lemma filled_update:
  "i < length ps \<Longrightarrow> ps ! i = None \<Longrightarrow> filled (ps[i := Some c]) = Suc (filled ps)"
proof (induction ps arbitrary: i)
  case Nil
  then show ?case by simp
next
  case (Cons q ps)
  then show ?case by (cases i) (auto simp: filled_def)
qed

lemma filled_all: "filled ps = length ps \<Longrightarrow> None \<notin> set ps"
  unfolding filled_def by (metis (mono_tags, lifting) length_filter_less less_irrefl)

lemma join_parts_full: "None \<notin> set ps \<Longrightarrow> join_parts ps = Some (concat (map the ps))"
  by (induction ps rule: join_parts.induct) auto

lemma reasm_ok_fresh: "0 < n \<Longrightarrow> reasm_ok (fresh_reasm n)"
  by (simp add: reasm_ok_def fresh_reasm_def)

lemma pending_ok_empty [simp]: "pending_ok []"
  by (simp add: pending_ok_def)

lemma pending_okD: "pending_ok p \<Longrightarrow> hm_get p m = Some e \<Longrightarrow> reasm_ok e"
  by (simp add: pending_ok_def)

lemma pending_ok_remove: "pending_ok p \<Longrightarrow> pending_ok (hm_remove m p)"
  by (auto simp: pending_ok_def split: if_splits intro: order_trans [OF hm_length_remove])

lemma pending_ok_insert:
  "pending_ok p \<Longrightarrow> length p < REASM_MAX \<or> hm_contains p m \<Longrightarrow> reasm_ok e \<Longrightarrow>
   pending_ok (hm_insert m e p)"
  by (auto simp: pending_ok_def hm_length_insert hm_contains_def split: if_splits)

text \<open>
  One accepted chunk in the two situations that occur: the chunk's slot is free, or it
  is taken already (a duplicate), both for a table entry of the announced size.
\<close>

definition shed :: "pending \<Rightarrow> u32 \<Rightarrow> pending" where
  "shed p m = (if length p \<ge> REASM_MAX \<and> \<not> hm_contains p m then [] else p)"

definition entry_for :: "pending \<Rightarrow> u32 \<Rightarrow> u16 \<Rightarrow> reasm" where
  "entry_for p m n = (case hm_get (shed p m) m of Some e \<Rightarrow> e | None \<Rightarrow> fresh_reasm n)"

lemma shed_ok: "pending_ok p \<Longrightarrow> pending_ok (shed p m)"
  by (simp add: shed_def)

lemma shed_room: "pending_ok p \<Longrightarrow> length (shed p m) < REASM_MAX \<or> hm_contains (shed p m) m"
  by (auto simp: shed_def pending_ok_def REASM_MAX_def)

lemma entry_for_ok: "pending_ok p \<Longrightarrow> 0 < n \<Longrightarrow> reasm_ok (entry_for p m n)"
  by (auto simp: entry_for_def reasm_ok_fresh split: option.splits dest: pending_okD [OF shed_ok])

lemma pending_ok_enter:
  "pending_ok p \<Longrightarrow> reasm_ok e \<Longrightarrow> pending_ok (hm_insert m e (shed p m))"
  by (rule pending_ok_insert [OF shed_ok shed_room])

lemma reasm_accept_unfold:
  "reasm_accept p m n i c =
     (let e = entry_for p m n; p2 = hm_insert m e (shed p m) in
      if total e \<noteq> n then Some (p2, None)
      else do {
        slot \<leftarrow> idx (parts e) (unat i);
        e' \<leftarrow> (case slot of
                None \<Rightarrow> do {
                  k \<leftarrow> checked_inc (received e);
                  Some (e\<lparr>received := k, parts := (parts e)[unat i := Some c]\<rparr>)
                }
              | Some _ \<Rightarrow> Some e);
        let p3 = hm_insert m e' p2;
        Some (if received e' = total e' then (hm_remove m p3, join_parts (parts e')) else (p3, None))
      })"
  by (simp only: reasm_accept_def entry_for_def shed_def Let_def)

lemma reasm_accept_other_total:
  "total (entry_for p m n) \<noteq> n \<Longrightarrow>
   reasm_accept p m n i c = Some (hm_insert m (entry_for p m n) (shed p m), None)"
  by (simp add: reasm_accept_unfold)

lemma reasm_accept_duplicate:
  assumes "reasm_ok e" "total e = n" "e = entry_for p m n" "i < n"
    and "parts e ! unat i = Some c'"
  shows "reasm_accept p m n i c = Some (hm_insert m e (hm_insert m e (shed p m)), None)"
proof -
  have "unat i < length (parts e)" "received e \<noteq> total e"
    using assms by (auto simp: reasm_ok_def word_less_nat_alt)
  then show ?thesis
    using assms by (simp add: reasm_accept_unfold Let_def)
qed

lemma reasm_accept_new:
  assumes "reasm_ok e" "total e = n" "e = entry_for p m n" "i < n"
    and "parts e ! unat i = None"
    and "e' = e\<lparr>received := received e + 1, parts := (parts e)[unat i := Some c]\<rparr>"
    and "p' = hm_insert m e' (hm_insert m e (shed p m))"
  shows "reasm_accept p m n i c =
    Some (if received e + 1 = n then (hm_remove m p', join_parts (parts e')) else (p', None))"
proof -
  have "unat i < length (parts e)"
    using assms by (auto simp: reasm_ok_def word_less_nat_alt)
  moreover have "checked_inc (received e) = Some (received e + 1)"
    using assms by (auto simp: reasm_ok_def intro: checked_inc_below)
  ultimately show ?thesis
    using assms by (simp add: reasm_accept_unfold Let_def)
qed

lemma reasm_ok_fill:
  assumes "reasm_ok e" "i < total e" "parts e ! unat i = None"
    and "e' = e\<lparr>received := received e + 1, parts := (parts e)[unat i := Some c]\<rparr>"
    and "received e + 1 \<noteq> total e"
  shows "reasm_ok e'"
proof -
  have lt: "unat (received e) < unat (total e)"
    using assms by (simp add: reasm_ok_def word_less_nat_alt)
  then have "unat (received e + 1) = Suc (unat (received e))"
    by (rule unat_Suc_less)
  moreover have "filled ((parts e)[unat i := Some c]) = Suc (filled (parts e))"
    using assms by (intro filled_update) (auto simp: reasm_ok_def word_less_nat_alt)
  moreover have "unat (received e + 1) \<noteq> unat (total e)"
    using assms by (simp add: word_unat_eq_iff)
  ultimately show ?thesis
    using assms lt by (simp add: reasm_ok_def word_less_nat_alt)
qed

lemma reasm_accept_safe:
  assumes ok: "pending_ok p" and lt: "i < n"
  shows "\<exists>p' r. reasm_accept p m n i c = Some (p', r) \<and> pending_ok p'"
proof -
  define e where "e = entry_for p m n"
  have n0: "0 < n" using lt by (metis word_gt_0 word_not_simps(1))
  have eok: "reasm_ok e" unfolding e_def by (rule entry_for_ok [OF ok n0])
  have p2: "pending_ok (hm_insert m x (shed p m))" if "reasm_ok x" for x
    using pending_ok_enter [OF ok that] .
  have p3: "pending_ok (hm_insert m y (hm_insert m x (shed p m)))" if "reasm_ok x" "reasm_ok y" for x y
    by (rule pending_ok_insert [OF p2 [OF that(1)] _ that(2)]) (simp add: hm_contains_def)
  show ?thesis
  proof (cases "total e = n")
    case False
    then show ?thesis
      using reasm_accept_other_total [of p m n i c] p2 eok by (simp add: e_def)
  next
    case same: True
    show ?thesis
    proof (cases "parts e ! unat i")
      case (Some c')
      then show ?thesis
        using reasm_accept_duplicate [OF eok same e_def lt] p3 eok by simp
    next
      case None
      define e' where "e' = e\<lparr>received := received e + 1, parts := (parts e)[unat i := Some c]\<rparr>"
      show ?thesis
      proof (cases "received e + 1 = n")
        case True
        have "pending_ok (hm_remove m (hm_insert m e' (hm_insert m e (shed p m))))"
        proof -
          have "hm_remove m (hm_insert m e' q) = hm_remove m q" for q
            unfolding hm_remove_def hm_insert_def by (simp add: delete_update_same)
          then show ?thesis by (simp add: pending_ok_remove p2 [OF eok])
        qed
        then show ?thesis
          using reasm_accept_new [OF eok same e_def lt None e'_def refl] True by simp
      next
        case False
        have "reasm_ok e'"
          using reasm_ok_fill [OF eok _ None e'_def] lt same False by simp
        then show ?thesis
          using reasm_accept_new [OF eok same e_def lt None e'_def refl] False p3 eok by simp
      qed
    qed
  qed
qed

lemma reasm_feed_safe:
  "pending_ok p \<Longrightarrow> \<exists>p' r. reasm_feed p pkt = Some (p', r) \<and> pending_ok p'"
  using reasm_accept_safe [of p] by (auto simp: reasm_feed_def Let_def not_le)


section \<open>Delivery\<close>

text \<open>
  \<open>pkt_id\<close> is the message a datagram is a chunk of; it is \<open>None\<close> for anything the
  header checks of \<open>reasm_feed\<close> discard.
\<close>

definition pkt_id :: "bytes \<Rightarrow> u32 option" where
  "pkt_id pkt =
     (if length pkt < CHUNK_HDR \<or> take 4 pkt \<noteq> CHUNK_MAGIC \<or>
         of_be16 (pkt ! 8) (pkt ! 9) = 0 \<or>
         of_be16 (pkt ! 10) (pkt ! 11) \<ge> of_be16 (pkt ! 8) (pkt ! 9) then None
      else Some (of_be32 (pkt ! 4) (pkt ! 5) (pkt ! 6) (pkt ! 7)))"

definition slots_of :: "bytes list \<Rightarrow> nat set \<Rightarrow> bytes option list" where
  "slots_of cs S = map (\<lambda>i. if i \<in> S then Some (cs ! i) else None) [0..<length cs]"

definition partial :: "bytes list \<Rightarrow> nat set \<Rightarrow> reasm" where
  "partial cs S =
     \<lparr>total = of_nat (length cs), received = of_nat (card S), parts = slots_of cs S\<rparr>"

text \<open>The table holds the chunks \<open>S\<close> of message \<open>m\<close>, and nothing when \<open>S\<close> is empty.\<close>

definition holding :: "u32 \<Rightarrow> bytes list \<Rightarrow> nat set \<Rightarrow> pending \<Rightarrow> bool" where
  "holding m cs S p = (hm_get p m = (if S = {} then None else Some (partial cs S)))"

definition room_for :: "pending \<Rightarrow> u32 \<Rightarrow> bool" where
  "room_for p m = (length p < REASM_MAX \<or> hm_contains p m)"

lemma room_shed: "room_for p m \<Longrightarrow> shed p m = p"
  by (auto simp: room_for_def shed_def)

lemma length_slots_of [simp]: "length (slots_of cs S) = length cs"
  by (simp add: slots_of_def)

lemma slots_of_nth: "i < length cs \<Longrightarrow> slots_of cs S ! i = (if i \<in> S then Some (cs ! i) else None)"
  by (simp add: slots_of_def)

lemma slots_of_empty: "slots_of cs {} = replicate (length cs) None"
  by (simp add: slots_of_def map_replicate_const)

lemma slots_of_insert:
  "i < length cs \<Longrightarrow> (slots_of cs S)[i := Some (cs ! i)] = slots_of cs (insert i S)"
  by (intro nth_equalityI) (auto simp: slots_of_nth nth_list_update)

lemma filled_slots_of: "S \<subseteq> {..<length cs} \<Longrightarrow> filled (slots_of cs S) = card S"
proof -
  assume sub: "S \<subseteq> {..<length cs}"
  have "filled (slots_of cs S) = card {i. i < length (slots_of cs S) \<and> slots_of cs S ! i \<noteq> None}"
    unfolding filled_def by (rule length_filter_conv_card)
  also have "{i. i < length (slots_of cs S) \<and> slots_of cs S ! i \<noteq> None} = S"
    using sub by (auto simp: slots_of_nth split: if_splits)
  finally show ?thesis .
qed

lemma join_slots_of: "S = {..<length cs} \<Longrightarrow> join_parts (slots_of cs S) = Some (concat cs)"
proof -
  assume "S = {..<length cs}"
  then have "slots_of cs S = map Some cs"
    by (intro nth_equalityI) (auto simp: slots_of_nth)
  then show ?thesis by (simp add: join_parts_full comp_def)
qed

lemma card_strict: "S \<subset> {..<n} \<Longrightarrow> card S < n" for n :: nat
  by (metis card_lessThan finite_lessThan psubset_card_mono)

lemma partial_ok:
  assumes "length cs < 65536" "S \<subset> {..<length cs}"
  shows "reasm_ok (partial cs S)"
  using assms card_strict [of S "length cs"] filled_slots_of [of S cs]
  by (simp add: reasm_ok_def partial_def unat_of_nat_u16 word_less_nat_alt)

lemma entry_for_holding:
  assumes "holding m cs S p" "room_for p m" "length cs < 65536"
  shows "entry_for p m (of_nat (length cs)) = partial cs S"
  using assms
  by (auto simp: entry_for_def holding_def room_shed fresh_reasm_def partial_def slots_of_empty
      unat_of_nat_u16 split: if_splits)

lemma chunk_pkt_fields:
  "take 4 (chunk_pkt m n i c) = CHUNK_MAGIC"
  "of_be32 (chunk_pkt m n i c ! 4) (chunk_pkt m n i c ! 5) (chunk_pkt m n i c ! 6)
     (chunk_pkt m n i c ! 7) = m"
  "of_be16 (chunk_pkt m n i c ! 8) (chunk_pkt m n i c ! 9) = n"
  "of_be16 (chunk_pkt m n i c ! 10) (chunk_pkt m n i c ! 11) = of_nat i"
  "drop CHUNK_HDR (chunk_pkt m n i c) = c"
  by (simp_all add: chunk_pkt_def CHUNK_MAGIC_def CHUNK_HDR_def be16_def be32_def
      of_be16_be16 of_be32_be32 del: of_nat_numeral)

lemma index_below: "i < unat n \<Longrightarrow> (of_nat i :: u16) < n"
  using unsigned_less [of n, where ?'a = nat] by (simp add: word_less_nat_alt unat_of_nat)

lemma feed_chunk_pkt:
  assumes "i < unat n"
  shows "reasm_feed p (chunk_pkt m n i c) = reasm_accept p m n (of_nat i) c"
proof -
  have "\<not> length (chunk_pkt m n i c) < CHUNK_HDR" by (simp add: length_chunk_pkt)
  moreover have "n \<noteq> 0" using assms by auto
  ultimately show ?thesis
    using index_below [OF assms]
    by (auto simp: reasm_feed_def chunk_pkt_fields Let_def not_le)
qed

lemma pkt_id_chunk: "i < unat n \<Longrightarrow> pkt_id (chunk_pkt m n i c) = Some m"
  using index_below [of i n] by (auto simp: pkt_id_def length_chunk_pkt chunk_pkt_fields not_le)


text \<open>One chunk of the message itself, before the last one and as the last one.\<close>

lemma feed_own:
  assumes "holding m cs S p" "room_for p m" "length cs < 65536"
    and i: "i < length cs" and S: "insert i S \<subset> {..<length cs}"
  shows "\<exists>p'. reasm_feed p (chunk_pkt m (of_nat (length cs)) i (cs ! i)) = Some (p', None) \<and>
    holding m cs (insert i S) p'"
proof -
  let ?N = "of_nat (length cs) :: u16"
  have ui: "unat (of_nat i :: u16) = i" and uN: "unat ?N = length cs"
    using i assms(3) by (simp_all add: unat_of_nat_u16)
  have sub: "S \<subset> {..<length cs}" using S by auto
  have ok: "reasm_ok (partial cs S)" by (rule partial_ok [OF assms(3) sub])
  have ent: "partial cs S = entry_for p m ?N"
    using entry_for_holding [OF assms(1-3)] by simp
  have tot: "total (partial cs S) = ?N" by (simp add: partial_def)
  have lt: "of_nat i < ?N" using i assms(3) by (simp add: word_less_nat_alt ui uN)
  have feed: "reasm_feed p (chunk_pkt m ?N i (cs ! i)) = reasm_accept p m ?N (of_nat i) (cs ! i)"
    using i uN by (intro feed_chunk_pkt) simp
  have slot: "parts (partial cs S) ! unat (of_nat i :: u16) = (if i \<in> S then Some (cs ! i) else None)"
    using i by (simp add: partial_def ui slots_of_nth)
  show ?thesis
  proof (cases "i \<in> S")
    case True
    then show ?thesis
      using reasm_accept_duplicate [OF ok tot ent lt] slot feed
      by (auto simp: holding_def insert_absorb)
  next
    case False
    have fin: "finite S" using sub finite_subset by blast
    have card: "card (insert i S) = Suc (card S)" using False fin by simp
    have below: "Suc (card S) < length cs" using card_strict [OF S] card by simp
    then have ne: "of_nat (card S) + 1 \<noteq> ?N"
      using assms(3) unat_of_nat_u16 [of "Suc (card S)"] uN
      by (metis Suc_eq_plus1 of_nat_1 of_nat_add less_trans less_irrefl)
    let ?e' = "(partial cs S)\<lparr>received := received (partial cs S) + 1,
       parts := (parts (partial cs S))[unat (of_nat i :: u16) := Some (cs ! i)]\<rparr>"
    have "?e' = partial cs (insert i S)"
      using i by (simp add: partial_def ui slots_of_insert card)
    moreover have "parts (partial cs S) ! unat (of_nat i :: u16) = None"
      using slot False by simp
    ultimately show ?thesis
      using reasm_accept_new [OF ok tot ent lt _ refl refl] feed ne
      by (simp add: holding_def partial_def)
  qed
qed

lemma feed_last:
  assumes "holding m cs S p" "room_for p m" "length cs < 65536"
    and i: "i < length cs" and new: "i \<notin> S" and S: "insert i S = {..<length cs}"
  shows "\<exists>p'. reasm_feed p (chunk_pkt m (of_nat (length cs)) i (cs ! i)) =
    Some (p', Some (concat cs)) \<and> hm_get p' m = None"
proof -
  let ?N = "of_nat (length cs) :: u16"
  have ui: "unat (of_nat i :: u16) = i" and uN: "unat ?N = length cs"
    using i assms(3) by (simp_all add: unat_of_nat_u16)
  have sub: "S \<subset> {..<length cs}" using S new by auto
  have ok: "reasm_ok (partial cs S)" by (rule partial_ok [OF assms(3) sub])
  have ent: "partial cs S = entry_for p m ?N"
    using entry_for_holding [OF assms(1-3)] by simp
  have tot: "total (partial cs S) = ?N" by (simp add: partial_def)
  have lt: "of_nat i < ?N" using i assms(3) by (simp add: word_less_nat_alt ui uN)
  have feed: "reasm_feed p (chunk_pkt m ?N i (cs ! i)) = reasm_accept p m ?N (of_nat i) (cs ! i)"
    using i uN by (intro feed_chunk_pkt) simp
  have slot: "parts (partial cs S) ! unat (of_nat i :: u16) = None"
    using i new by (simp add: partial_def ui slots_of_nth)
  have fin: "finite S" using sub finite_subset by blast
  have "Suc (card S) = length cs" using new fin S by (metis card_insert_disjoint card_lessThan)
  then have full: "of_nat (card S) + 1 = ?N" by (metis Suc_eq_plus1 of_nat_1 of_nat_add)
  let ?e' = "(partial cs S)\<lparr>received := received (partial cs S) + 1,
     parts := (parts (partial cs S))[unat (of_nat i :: u16) := Some (cs ! i)]\<rparr>"
  have "parts ?e' = slots_of cs {..<length cs}"
    using i S by (simp add: partial_def ui slots_of_insert)
  then have "join_parts (parts ?e') = Some (concat cs)"
    by (simp add: join_slots_of)
  then show ?thesis
    using reasm_accept_new [OF ok tot ent lt slot refl refl] feed full
    by (simp add: partial_def)
qed

text \<open>A datagram of another message, or none at all, leaves the message's entry alone.\<close>

lemma reasm_accept_frame:
  "reasm_accept p m n i c = Some (p', r) \<Longrightarrow> room_for p m \<Longrightarrow> k \<noteq> m \<Longrightarrow> hm_get p' k = hm_get p k"
  by (auto simp: reasm_accept_unfold room_shed Let_def bind_eq_Some_conv split: if_splits)

lemma reasm_feed_junk: "pkt_id pkt = None \<Longrightarrow> reasm_feed p pkt = Some (p, None)"
  by (auto simp: pkt_id_def reasm_feed_def Let_def split: if_splits)

lemma reasm_feed_Some_id:
  "pkt_id pkt = Some m \<Longrightarrow>
   reasm_feed p pkt =
     reasm_accept p m (of_be16 (pkt ! 8) (pkt ! 9)) (of_be16 (pkt ! 10) (pkt ! 11)) (drop CHUNK_HDR pkt)"
  by (auto simp: pkt_id_def reasm_feed_def Let_def split: if_splits)

lemma reasm_feed_frame:
  assumes "reasm_feed p pkt = Some (p', r)" "\<And>j. pkt_id pkt = Some j \<Longrightarrow> room_for p j"
    and "pkt_id pkt \<noteq> Some k"
  shows "hm_get p' k = hm_get p k"
proof (cases "pkt_id pkt")
  case None
  then show ?thesis using assms(1) by (simp add: reasm_feed_junk)
next
  case (Some m)
  then show ?thesis
    using assms reasm_accept_frame [of p m _ _ _ p' r k] by (simp add: reasm_feed_Some_id)
qed

lemma reasm_feed_dom:
  assumes "reasm_feed p pkt = Some (p', r)" "\<And>j. pkt_id pkt = Some j \<Longrightarrow> room_for p j \<and> j \<in> U"
    and "dom (hm_get p) \<subseteq> U"
  shows "dom (hm_get p') \<subseteq> U"
proof
  fix k
  assume k: "k \<in> dom (hm_get p')"
  show "k \<in> U"
  proof (cases "pkt_id pkt = Some k")
    case True
    then show ?thesis using assms(2) by blast
  next
    case False
    then have "hm_get p' k = hm_get p k" using assms(1,2) by (intro reasm_feed_frame) auto
    then show ?thesis using k assms(3) by (metis domIff subsetD)
  qed
qed

lemma room_in_universe:
  assumes "pending_ok p" "dom (hm_get p) \<subseteq> U" "finite U" "card U \<le> REASM_MAX" "m \<in> U"
  shows "room_for p m"
proof (rule ccontr)
  assume no: "\<not> room_for p m"
  then have "m \<notin> dom (hm_get p)" by (auto simp: room_for_def hm_contains_def)
  then have "dom (hm_get p) \<subset> U" using assms(2,5) by blast
  then have "card (dom (hm_get p)) < card U" using assms(3) psubset_card_mono by blast
  moreover have "length p = card (dom (hm_get p))"
    using assms(1) by (simp add: pending_ok_def hm_length)
  ultimately show False using no assms(4) by (simp add: room_for_def)
qed


text \<open>
  A network trace in which message \<open>m\<close> competes with others: every datagram is one of
  \<open>m\<close>'s chunks or is not for \<open>m\<close>, and all messages seen or pending lie in a set \<open>U\<close> of
  at most \<open>REASM_MAX\<close> ids.
\<close>

definition own_chunk :: "u32 \<Rightarrow> bytes list \<Rightarrow> bytes \<Rightarrow> bool" where
  "own_chunk m cs pkt = (\<exists>i < length cs. pkt = chunk_pkt m (of_nat (length cs)) i (cs ! i))"

definition fair_trace :: "u32 \<Rightarrow> bytes list \<Rightarrow> u32 set \<Rightarrow> bytes list \<Rightarrow> bool" where
  "fair_trace m cs U pkts =
     (\<forall>pkt \<in> set pkts. (own_chunk m cs pkt \<or> pkt_id pkt \<noteq> Some m) \<and>
        (\<forall>j. pkt_id pkt = Some j \<longrightarrow> j \<in> U))"

definition seen :: "u32 \<Rightarrow> bytes list \<Rightarrow> bytes list \<Rightarrow> nat set" where
  "seen m cs pkts =
     {i. i < length cs \<and> chunk_pkt m (of_nat (length cs)) i (cs ! i) \<in> set pkts}"

lemma chunk_pkt_index_inj:
  assumes "chunk_pkt m n i c = chunk_pkt m n' j d" "i < 65536" "j < 65536"
  shows "i = j"
proof -
  have "(of_nat i :: u16) = of_nat j"
    using assms(1) by (metis chunk_pkt_fields(4))
  then show ?thesis using assms(2,3) by (metis unat_of_nat_u16)
qed

lemma seen_Cons_own:
  "i < length cs \<Longrightarrow> length cs < 65536 \<Longrightarrow>
   seen m cs (chunk_pkt m (of_nat (length cs)) i (cs ! i) # pkts) = insert i (seen m cs pkts)"
  by (auto simp: seen_def dest: chunk_pkt_index_inj)

lemma seen_Cons_other:
  "pkt_id pkt \<noteq> Some m \<Longrightarrow> length cs < 65536 \<Longrightarrow> seen m cs (pkt # pkts) = seen m cs pkts"
  by (auto simp: seen_def pkt_id_chunk unat_of_nat_u16)

lemma run_collect:
  assumes "pending_ok p" "dom (hm_get p) \<subseteq> U" "finite U" "card U \<le> REASM_MAX"
    and "fair_trace m cs U pkts" "m \<in> U" "length cs < 65536"
    and "holding m cs S p" "S \<union> seen m cs pkts \<subset> {..<length cs}"
  shows "\<exists>p' outs. reasm_run p pkts = Some (p', outs) \<and> pending_ok p' \<and>
    dom (hm_get p') \<subseteq> U \<and> holding m cs (S \<union> seen m cs pkts) p' \<and> length outs = length pkts \<and>
    (\<forall>k < length pkts. own_chunk m cs (pkts ! k) \<longrightarrow> outs ! k = None)"
  using assms(1,2,5,8,9)
proof (induction pkts arbitrary: p S)
  case Nil
  then show ?case by (simp add: seen_def)
next
  case (Cons pkt pkts)
  have room: "room_for p j \<and> j \<in> U" if "pkt_id pkt = Some j" for j
    using that Cons.prems(1-3) room_in_universe [OF _ _ assms(3,4)] by (auto simp: fair_trace_def)
  have rest: "fair_trace m cs U pkts" using Cons.prems(3) by (simp add: fair_trace_def)
  obtain p1 r where feed: "reasm_feed p pkt = Some (p1, r)" and ok1: "pending_ok p1"
    using reasm_feed_safe [OF Cons.prems(1)] by blast
  have dom1: "dom (hm_get p1) \<subseteq> U"
    using reasm_feed_dom [OF feed room Cons.prems(2)] .
  obtain T where T: "holding m cs T p1" "T \<union> seen m cs pkts = S \<union> seen m cs (pkt # pkts)"
    and r: "own_chunk m cs pkt \<Longrightarrow> r = None"
  proof (cases "own_chunk m cs pkt")
    case True
    then obtain i where i: "i < length cs" "pkt = chunk_pkt m (of_nat (length cs)) i (cs ! i)"
      by (auto simp: own_chunk_def)
    have sn: "seen m cs (pkt # pkts) = insert i (seen m cs pkts)"
      using seen_Cons_own [OF i(1) assms(7)] i(2) by simp
    then have "insert i S \<subset> {..<length cs}" using Cons.prems(5) by auto
    moreover have "room_for p m"
      using room i assms(7) by (simp add: pkt_id_chunk unat_of_nat_u16)
    ultimately have "holding m cs (insert i S) p1 \<and> r = None"
      using feed_own [OF Cons.prems(4) _ assms(7) i(1)] feed i(2) by auto
    with sn show ?thesis by (intro that [of "insert i S"]) auto
  next
    case False
    then have ne: "pkt_id pkt \<noteq> Some m" using Cons.prems(3) by (simp add: fair_trace_def)
    then have "hm_get p1 m = hm_get p m" using reasm_feed_frame [OF feed] room by blast
    then show ?thesis
      using Cons.prems(4) False seen_Cons_other [OF ne assms(7)]
      by (intro that [of S]) (auto simp: holding_def)
  qed
  obtain p2 outs where run: "reasm_run p1 pkts = Some (p2, outs)" "pending_ok p2"
      "dom (hm_get p2) \<subseteq> U" "holding m cs (T \<union> seen m cs pkts) p2" "length outs = length pkts"
      "\<forall>k < length pkts. own_chunk m cs (pkts ! k) \<longrightarrow> outs ! k = None"
    using Cons.IH [OF ok1 dom1 rest T(1)] Cons.prems(5) T(2) by auto
  have "\<forall>k < length (pkt # pkts). own_chunk m cs ((pkt # pkts) ! k) \<longrightarrow> (r # outs) ! k = None"
    using run(6) r by (auto simp: nth_Cons split: nat.splits)
  with run T(2) feed show ?case
    by (intro exI [of _ p2] exI [of _ "r # outs"]) simp
qed

lemma reasm_run_append:
  "reasm_run p (xs @ ys) = do {
     (p', rs) \<leftarrow> reasm_run p xs;
     (p'', rs') \<leftarrow> reasm_run p' ys;
     Some (p'', rs @ rs')
   }"
  by (induction xs arbitrary: p) (auto split: Option.bind_splits)


lemma split_chunks_u16: "length data \<le> 65535 * 1024 \<Longrightarrow> length (split_chunks data) < 65536"
proof -
  assume "length data \<le> 65535 * 1024"
  then have "(length data + 1023) div 1024 \<le> (65535 * 1024 + 1023) div 1024"
    by (intro div_le_mono) simp
  then show ?thesis by (simp add: length_split_chunks)
qed

lemma deliver:
  assumes "pending_ok p" "hm_get p m = None" "dom (hm_get p) \<subseteq> U" "finite U" "card U \<le> REASM_MAX"
    and "m \<in> U" "length (split_chunks data) < 65536"
    and "fair_trace m (split_chunks data) U (pre @ [pkt])"
    and "own_chunk m (split_chunks data) pkt" "pkt \<notin> set pre"
    and "seen m (split_chunks data) (pre @ [pkt]) = {..<length (split_chunks data)}"
  shows "\<exists>q outs. reasm_run p (pre @ [pkt]) = Some (q, outs @ [Some data]) \<and>
    length outs = length pre \<and> hm_get q m = None \<and> dom (hm_get q) \<subseteq> U \<and>
    (\<forall>k < length pre. own_chunk m (split_chunks data) (pre ! k) \<longrightarrow> outs ! k = None)"
proof -
  let ?cs = "split_chunks data"
  obtain i where i: "i < length ?cs" "pkt = chunk_pkt m (of_nat (length ?cs)) i (?cs ! i)"
    using assms(9) by (auto simp: own_chunk_def)
  have notin: "i \<notin> seen m ?cs pre" using assms(10) i(2) by (simp add: seen_def)
  have "insert i (seen m ?cs pre) = seen m ?cs (pre @ [pkt])"
    using i assms(7) by (auto simp: seen_def dest: chunk_pkt_index_inj)
  with assms(11) have all: "insert i (seen m ?cs pre) = {..<length ?cs}" by simp
  have fair: "fair_trace m ?cs U pre" using assms(8) by (simp add: fair_trace_def)
  have hold: "holding m ?cs {} p" using assms(2) by (simp add: holding_def)
  have strict: "seen m ?cs pre \<subset> {..<length ?cs}" using notin all by blast
  obtain p1 outs where run: "reasm_run p pre = Some (p1, outs)" "pending_ok p1"
      "dom (hm_get p1) \<subseteq> U" "holding m ?cs (seen m ?cs pre) p1" "length outs = length pre"
      "\<forall>k < length pre. own_chunk m ?cs (pre ! k) \<longrightarrow> outs ! k = None"
    using run_collect [OF assms(1,3,4,5) fair assms(6,7) hold] strict by auto
  have room: "room_for p1 m" by (rule room_in_universe [OF run(2,3) assms(4,5,6)])
  obtain q where q: "reasm_feed p1 pkt = Some (q, Some data)" "hm_get q m = None"
    using feed_last [OF run(4) room assms(7) i(1) notin all] i(2) by (auto simp: concat_split_chunks)
  have pid: "pkt_id pkt = Some m" using i assms(7) by (simp add: pkt_id_chunk unat_of_nat_u16)
  have "dom (hm_get q) \<subseteq> U"
    using pid room assms(6) by (intro reasm_feed_dom [OF q(1) _ run(3)]) simp
  with run q show ?thesis
    by (intro exI [of _ q] exI [of _ outs]) (simp add: reasm_run_append)
qed

lemma own_chunks_of_message:
  "pkt \<in> set (chunk_pkts m data) \<longleftrightarrow> own_chunk m (split_chunks data) pkt"
  by (auto simp: own_chunk_def in_set_conv_nth chunk_pkts_nth)

lemma chunk_pkts_distinct:
  "length (split_chunks data) < 65536 \<Longrightarrow> distinct (chunk_pkts m data)"
  by (auto simp: distinct_conv_nth chunk_pkts_nth dest!: chunk_pkt_index_inj)

lemma dom_empty_nil: "dom (hm_get p) = {} \<Longrightarrow> p = []"
  by (metis empty_set hm_keys_def hm_keys_dom map_is_Nil_conv set_empty2)

definition reasm_step :: "pending \<Rightarrow> bytes \<Rightarrow> pending" where
  "reasm_step p pkt = (case reasm_feed p pkt of Some (p', _) \<Rightarrow> p' | None \<Rightarrow> p)"

interpretation reasm: step_system reasm_step pending_ok
proof unfold_locales
  fix p pkt
  assume "pending_ok p"
  from reasm_feed_safe [OF this, of pkt] show "pending_ok (reasm_step p pkt)"
    by (auto simp: reasm_step_def)
qed

lemma reasm_run_foldl:
  "pending_ok p \<Longrightarrow> \<exists>outs. reasm_run p pkts = Some (foldl reasm_step p pkts, outs)"
proof (induction pkts arbitrary: p)
  case Nil
  then show ?case by simp
next
  case (Cons pkt pkts)
  obtain p' r where "reasm_feed p pkt = Some (p', r)" "pending_ok p'"
    using reasm_feed_safe [OF Cons.prems] by blast
  with Cons.IH [of p'] show ?case by (auto simp: reasm_step_def)
qed

lemma feed_single_chunk:
  "reasm_feed [] (chunk_pkt m 1 0 c) = Some ([], Some c)"
proof -
  obtain q where q: "reasm_feed [] (chunk_pkt m 1 0 c) = Some (q, Some c)" "hm_get q m = None"
    using feed_last [of m "[c]" "{}" "[]" 0] by (auto simp: holding_def room_for_def REASM_MAX_def)
  have "dom (hm_get q) \<subseteq> {m}"
    by (rule reasm_feed_dom [OF q(1)]) (simp_all add: pkt_id_chunk room_for_def REASM_MAX_def)
  then have "q = []" using q(2) by (intro dom_empty_nil) auto
  with q show ?thesis by simp
qed

lemma split_chunks_hd: "split_chunks data ! 0 = take 1024 data"
  by (cases data) (simp_all add: split_chunks_def CHUNK_PAYLOAD_def chunks_of.simps)

lemma chunk_roundtrip_run:
  assumes "length data \<le> 65535 * 1024"
    and "send_chunked io m data = (sent, Inr ())"
    and "mset arrived = mset sent"
  shows "reasm_run [] arrived = Some ([], replicate (length arrived - 1) None @ [Some data])"
proof -
  have len: "length (split_chunks data) < 65536" using assms(1) by (rule split_chunks_u16)
  have sent: "sent = chunk_pkts m data"
    using assms(2) send_pkts_prefix unfolding send_chunked_def by blast
  have ne: "arrived \<noteq> []" using assms(3) sent length_chunk_pkts [of m data] by fastforce
  define pre pkt where "pre = butlast arrived" and "pkt = last arrived"
  have arr: "arrived = pre @ [pkt]" using ne by (simp add: pre_def pkt_def)
  have set: "set arrived = set (chunk_pkts m data)" using assms(3) sent by (metis set_mset_mset)
  have own: "own_chunk m (split_chunks data) x" if "x \<in> set arrived" for x
    using that set by (simp add: own_chunks_of_message)
  have "distinct arrived"
    using chunk_pkts_distinct [OF len] assms(3) sent by (metis mset_eq_imp_distinct_iff)
  then have "pkt \<notin> set pre" using arr by simp
  moreover have "fair_trace m (split_chunks data) {m} (pre @ [pkt])"
    using own len unfolding arr [symmetric] fair_trace_def own_chunk_def
    by (fastforce simp: pkt_id_chunk unat_of_nat_u16)
  moreover have "seen m (split_chunks data) (pre @ [pkt]) = {..<length (split_chunks data)}"
    using set unfolding arr [symmetric] by (auto simp: seen_def own_chunks_of_message own_chunk_def)
  ultimately obtain q outs where *: "reasm_run [] (pre @ [pkt]) = Some (q, outs @ [Some data])"
      "length outs = length pre" "hm_get q m = None" "dom (hm_get q) \<subseteq> {m}"
      "\<forall>k < length pre. own_chunk m (split_chunks data) (pre ! k) \<longrightarrow> outs ! k = None"
    using deliver [of "[]" m "{m}" data pre pkt] len own [of pkt] arr by (auto simp: REASM_MAX_def)
  have "outs = replicate (length pre) None"
    using * own arr by (intro nth_equalityI) auto
  moreover have "q = []" using *(3,4) by (intro dom_empty_nil) auto
  ultimately show ?thesis using * arr by simp
qed

section \<open>Properties\<close>

text \<open>
  C20: A message of at most 65535 chunks (64 MiB) that is cut up by \<open>send_chunked\<close> arrives
  whole at the far reassembler whatever the order in which its datagrams arrive: nothing is
  returned before the last chunk, the last chunk returns exactly the message, and no state
  of it is left behind.
\<close>

theorem chunk_roundtrip:
  assumes "length data \<le> 65535 * 1024"
    and "send_chunked io m data = (sent, Inr ())"
    and "mset arrived = mset sent"
  shows "reasm_run [] arrived = Some ([], replicate (length arrived - 1) None @ [Some data])"
  by (rule chunk_roundtrip_run [OF assms])

theorem chunk_roundtrip_witness:
  "reasm_run [] (rev (chunk_pkts 7 (replicate 2000 0))) =
     Some ([], replicate (length (rev (chunk_pkts 7 (replicate 2000 0))) - 1) None @
       [Some (replicate 2000 0)])"
proof (rule chunk_roundtrip [where io = "\<lambda>_. None"])
  show "send_chunked (\<lambda>_. None) 7 (replicate 2000 0) = (chunk_pkts 7 (replicate 2000 0), Inr ())"
    by (simp add: send_chunked_def send_pkts_all_ok)
qed simp_all



text \<open>
  No sequence of datagrams, however malformed, makes the reassembler panic (no slot index
  is out of range and the 16-bit chunk counter does not overflow), and it never holds more
  than 256 partial messages, each of them incomplete.
\<close>

theorem reassembler_never_panics:
  "\<exists>p outs. reasm_run [] pkts = Some (p, outs) \<and> pending_ok p"
  using reasm_run_foldl [OF pending_ok_empty] reasm.run_inv [OF pending_ok_empty] by blast



end
