(* ===== verification/Text.thy ===== *)
theory Text
  imports Prelude "HOL-Library.Sublist"
begin

text \<open>
  The parts of Rust's \<open>str\<close>, \<open>Ipv4Addr\<close> and \<open>SocketAddr\<close> the crate uses. A \<open>String\<close> is
  its UTF-8 byte sequence, so a \<open>char\<close> of the model is one byte, as for the byte
  offsets of \<open>str::find\<close> and of slicing.
\<close>

section \<open>Trimming, searching, ASCII case\<close>

text \<open>The UTF-8 forms of the Unicode \<open>White_Space\<close> characters, which \<open>str::trim\<close> strips.\<close>

definition bytes_str :: "nat list \<Rightarrow> string" where
  "bytes_str ns = map char_of ns"

definition white_space :: "string list" where
  "white_space =
     map (\<lambda>n. [char_of n]) [9, 10, 11, 12, 13, 32 :: nat] @
     map bytes_str [[0xC2, 0x85], [0xC2, 0xA0], [0xE1, 0x9A, 0x80]] @
     map (\<lambda>n. bytes_str [0xE2, 0x80, n])
       [0x80, 0x81, 0x82, 0x83, 0x84, 0x85, 0x86, 0x87, 0x88, 0x89, 0x8A, 0xA8, 0xA9, 0xAF] @
     map bytes_str [[0xE2, 0x81, 0x9F], [0xE3, 0x80, 0x80]]"

text \<open>\<open>strip_prefixes ws s\<close> removes elements of \<open>ws\<close> from the front of \<open>s\<close> while it can.\<close>

definition match_prefix :: "'a list list \<Rightarrow> 'a list \<Rightarrow> 'a list option" where
  "match_prefix ws s = List.find (\<lambda>w. w \<noteq> [] \<and> take (length w) s = w) ws"

lemma match_prefix_SomeD:
  "match_prefix ws s = Some w \<Longrightarrow> w \<in> set ws \<and> w \<noteq> [] \<and> take (length w) s = w"
  by (auto simp: match_prefix_def find_Some_iff)

lemma match_prefix_None_iff:
  "match_prefix ws s = None \<longleftrightarrow> (\<forall>w \<in> set ws. w = [] \<or> take (length w) s \<noteq> w)"
  by (auto simp: match_prefix_def find_None_iff)

lemma match_prefix_shorter: "match_prefix ws s = Some w \<Longrightarrow> length (drop (length w) s) < length s"
  by (cases s) (auto dest!: match_prefix_SomeD simp: diff_less)

function strip_prefixes :: "'a list list \<Rightarrow> 'a list \<Rightarrow> 'a list" where
  "strip_prefixes ws s =
     (case match_prefix ws s of None \<Rightarrow> s | Some w \<Rightarrow> strip_prefixes ws (drop (length w) s))"
  by pat_completeness auto
termination
  by (relation "measure (\<lambda>(ws, s). length s)") (simp_all add: match_prefix_shorter [simplified])

declare strip_prefixes.simps [simp del]

definition trim_start :: "string \<Rightarrow> string" where
  "trim_start s = strip_prefixes white_space s"

definition trim_end :: "string \<Rightarrow> string" where
  "trim_end s = rev (strip_prefixes (map rev white_space) (rev s))"

definition trim :: "string \<Rightarrow> string" where
  "trim s = trim_end (trim_start s)"

text \<open>\<open>trim_end_matches('/')\<close> and \<open>str::find\<close>.\<close>

definition trim_end_char :: "char \<Rightarrow> string \<Rightarrow> string" where
  "trim_end_char c s = rev (dropWhile (\<lambda>d. d = c) (rev s))"

fun find_str :: "string \<Rightarrow> string \<Rightarrow> nat option" where
  "find_str pat s =
     (if take (length pat) s = pat then Some 0
      else case s of [] \<Rightarrow> None | c # cs \<Rightarrow> map_option Suc (find_str pat cs))"

declare find_str.simps [simp del]

definition ascii_lower :: "char \<Rightarrow> char" where
  "ascii_lower c = (let n = of_char c :: nat in if 65 \<le> n \<and> n \<le> 90 then char_of (n + 32) else c)"

definition ascii_upper :: "char \<Rightarrow> char" where
  "ascii_upper c = (let n = of_char c :: nat in if 97 \<le> n \<and> n \<le> 122 then char_of (n - 32) else c)"

definition eq_ignore_ascii_case :: "string \<Rightarrow> string \<Rightarrow> bool" where
  "eq_ignore_ascii_case s t = (map ascii_lower s = map ascii_lower t)"

section \<open>Decimal numbers\<close>

definition digit :: "nat \<Rightarrow> char" where
  "digit n = char_of (48 + n)"

definition is_digit :: "char \<Rightarrow> bool" where
  "is_digit c = (48 \<le> (of_char c :: nat) \<and> (of_char c :: nat) \<le> 57)"

definition digit_val :: "char \<Rightarrow> nat" where
  "digit_val c = of_char c - 48"

fun show_nat :: "nat \<Rightarrow> string" where
  "show_nat n = (if n < 10 then [digit n] else show_nat (n div 10) @ [digit (n mod 10)])"

declare show_nat.simps [simp del]

definition nat_val :: "string \<Rightarrow> nat" where
  "nat_val s = foldl (\<lambda>n c. n * 10 + digit_val c) 0 s"

lemma of_char_digit: "n < 10 \<Longrightarrow> of_char (digit n) = 48 + n"
  by (simp add: digit_def)

lemma digit_0: "digit 0 = CHR ''0''"
  by code_simp

lemma digit_val_digit [simp]: "n < 10 \<Longrightarrow> digit_val (digit n) = n"
  by (simp add: digit_val_def of_char_digit)

lemma is_digit_digit [simp]: "n < 10 \<Longrightarrow> is_digit (digit n)"
  by (simp add: is_digit_def of_char_digit)

lemma digit_digit_val [simp]: "is_digit c \<Longrightarrow> digit (digit_val c) = c"
  by (simp add: is_digit_def digit_val_def digit_def)

lemma digit_val_less: "is_digit c \<Longrightarrow> digit_val c < 10"
  by (simp add: is_digit_def digit_val_def) linarith

lemma show_nat_nonempty [simp]: "show_nat n \<noteq> []"
  by (subst show_nat.simps) simp

lemma show_nat_digits: "list_all is_digit (show_nat n)"
proof (induction n rule: show_nat.induct)
  case (1 n)
  then show ?case by (subst show_nat.simps) simp
qed

lemma nat_val_show_nat: "nat_val (show_nat n) = n"
proof (induction n rule: show_nat.induct)
  case (1 n)
  then show ?case by (subst show_nat.simps) (simp add: nat_val_def)
qed

lemma show_nat_small: "n < 10 \<Longrightarrow> show_nat n = [digit n]"
  by (simp add: show_nat.simps)

lemma show_nat_two: "10 \<le> n \<Longrightarrow> n < 100 \<Longrightarrow> show_nat n = [digit (n div 10), digit (n mod 10)]"
  by (simp add: show_nat.simps)

lemma show_nat_three:
  "100 \<le> n \<Longrightarrow> n < 1000 \<Longrightarrow>
   show_nat n = [digit (n div 100), digit (n div 10 mod 10), digit (n mod 10)]"
  by (simp add: show_nat.simps [of n] show_nat_two div_mult2_eq [symmetric])

section \<open>IPv4 addresses\<close>

datatype ipv4 = Ipv4 u8 u8 u8 u8

fun octets :: "ipv4 \<Rightarrow> bytes" where
  "octets (Ipv4 a b c d) = [a, b, c, d]"

definition is_loopback :: "ipv4 \<Rightarrow> bool" where
  "is_loopback ip = (octets ip ! 0 = 127)"

definition is_unspecified :: "ipv4 \<Rightarrow> bool" where
  "is_unspecified ip = (ip = Ipv4 0 0 0 0)"

text \<open>An address and port. The crate's own sockets are IPv4; only a parsed string can be IPv6.\<close>

datatype sock_addr = V4 ipv4 u16 | V6 "u16 list" u16 u32

fun split_on :: "char \<Rightarrow> string \<Rightarrow> string list" where
  "split_on c [] = [[]]"
| "split_on c (d # s) =
     (if d = c then [] # split_on c s
      else case split_on c s of [] \<Rightarrow> [[d]] | w # ws \<Rightarrow> (d # w) # ws)"

text \<open>
  \<open>Ipv4Addr::from_str\<close>: four decimal numbers of at most three digits without leading
  zeros, each at most 255, separated by dots.
\<close>

definition parse_octet :: "string \<Rightarrow> u8 option" where
  "parse_octet s =
     (if s \<noteq> [] \<and> length s \<le> 3 \<and> list_all is_digit s \<and> \<not> (1 < length s \<and> hd s = CHR ''0'')
         \<and> nat_val s \<le> 255
      then Some (of_nat (nat_val s)) else None)"

definition parse_ipv4 :: "string \<Rightarrow> ipv4 option" where
  "parse_ipv4 s =
     (case map parse_octet (split_on (CHR ''.'') s) of
        [Some a, Some b, Some c, Some d] \<Rightarrow> Some (Ipv4 a b c d)
      | _ \<Rightarrow> None)"

fun show_ipv4 :: "ipv4 \<Rightarrow> string" where
  "show_ipv4 (Ipv4 a b c d) =
     show_nat (unat a) @ ''.'' @ show_nat (unat b) @ ''.'' @ show_nat (unat c) @ ''.'' @ show_nat (unat d)"


lemma split_on_nonempty [simp]: "split_on c s \<noteq> []"
  by (induction s) (auto split: list.splits)

lemma split_on_no_sep: "c \<notin> set s \<Longrightarrow> split_on c s = [s]"
  by (induction s) auto

lemma split_on_append: "c \<notin> set s \<Longrightarrow> split_on c (s @ c # t) = s # split_on c t"
  by (induction s) auto

lemma dot_not_digit: "list_all is_digit s \<Longrightarrow> CHR ''.'' \<notin> set s"
  by (auto simp: list_all_iff is_digit_def)

lemma unat_u8_less: "unat (w :: u8) < 256"
  using unsigned_less [of w, where ?'a = nat] by simp

lemma show_nat_octet_shape:
  assumes "n < 256"
  shows "length (show_nat n) \<le> 3 \<and> \<not> (1 < length (show_nat n) \<and> hd (show_nat n) = CHR ''0'')"
proof -
  have nz: "digit k \<noteq> CHR ''0''" if "0 < k" "k < 10" for k
    using of_char_digit [OF that(2)] that(1) by auto
  consider "n < 10" | "10 \<le> n" "n < 100" | "100 \<le> n" using assms by linarith
  then show ?thesis
  proof cases
    case 1
    then show ?thesis by (simp add: show_nat_small)
  next
    case 2
    then show ?thesis using nz [of "n div 10"] by (auto simp: show_nat_two)
  next
    case 3
    then show ?thesis using assms nz [of "n div 100"] by (auto simp: show_nat_three)
  qed
qed

lemma parse_show_octet: "parse_octet (show_nat (unat w)) = Some w"
  using show_nat_octet_shape [OF unat_u8_less [of w]] unat_u8_less [of w]
  by (auto simp: parse_octet_def nat_val_show_nat show_nat_digits)

lemma parse_show_ipv4: "parse_ipv4 (show_ipv4 ip) = Some ip"
proof (cases ip)
  case (Ipv4 a b c d)
  have "CHR ''.'' \<notin> set (show_nat n)" for n
    by (rule dot_not_digit [OF show_nat_digits])
  then show ?thesis
    by (simp add: Ipv4 parse_ipv4_def split_on_append split_on_no_sep parse_show_octet)
qed

lemma three_digits:
  fixes x y z :: nat
  assumes "0 < x" "x < 10" "y < 10" "z < 10"
  shows "(x * 100 + y * 10 + z) div 100 = x" "(x * 100 + y * 10 + z) div 10 mod 10 = y"
    "(x * 100 + y * 10 + z) mod 10 = z" "100 \<le> x * 100 + y * 10 + z" "x * 100 + y * 10 + z < 1000"
proof -
  have h: "x * 100 + y * 10 + z = (y * 10 + z) + 100 * x" by simp
  show "(x * 100 + y * 10 + z) div 100 = x"
    using assms unfolding h by (subst div_mult_self2) simp_all
  have t: "x * 100 + y * 10 + z = z + 10 * (x * 10 + y)" by simp
  then have "(x * 100 + y * 10 + z) div 10 = x * 10 + y"
    using assms unfolding t by (subst div_mult_self2) simp_all
  then show "(x * 100 + y * 10 + z) div 10 mod 10 = y" using assms by simp
  show "(x * 100 + y * 10 + z) mod 10 = z" 
    using assms unfolding t by (subst mod_mult_self2) simp
  show "100 \<le> x * 100 + y * 10 + z" "x * 100 + y * 10 + z < 1000" using assms by linarith+
qed

lemma show_parse_octet:
  assumes "parse_octet s = Some w"
  shows "show_nat (unat w) = s"
proof -
  from assms have s: "s \<noteq> []" "length s \<le> 3" "list_all is_digit s"
    "\<not> (1 < length s \<and> hd s = CHR ''0'')" "nat_val s \<le> 255" and w: "w = of_nat (nat_val s)"
    by (auto simp: parse_octet_def split: if_splits)
  have "unat w = nat_val s" using s(5) by (simp add: w unat_of_nat)
  moreover have "show_nat (nat_val s) = s"
  proof -
    have pos: "0 < digit_val c" if "is_digit c" "c \<noteq> CHR ''0''" for c
    proof (rule ccontr)
      assume "\<not> 0 < digit_val c"
      then have "digit_val c = 0" by simp
      then have "digit 0 = c" using digit_digit_val [OF that(1)] by simp
      then show False using that(2) by (simp add: digit_0)
    qed
    consider a where "s = [a]" | a b where "s = [a, b]" | a b c where "s = [a, b, c]"
      using s(1,2) by (auto simp: neq_Nil_conv le_Suc_eq length_Suc_conv numeral_3_eq_3)
    then show ?thesis
    proof cases
      case (1 a)
      then show ?thesis using s(3) digit_val_less [of a] by (simp add: nat_val_def show_nat_small)
    next
      case (2 a b)
      have "is_digit a" "is_digit b" "0 < digit_val a" using 2 s(3,4) pos by auto
      then show ?thesis
        using 2 digit_val_less [of a] digit_val_less [of b]
        by (simp add: nat_val_def show_nat_two)
    next
      case (3 a b c)
      have d: "is_digit a" "is_digit b" "is_digit c" "0 < digit_val a" using 3 s(3,4) pos by auto
      have v: "nat_val s = digit_val a * 100 + digit_val b * 10 + digit_val c"
        using 3 by (simp add: nat_val_def)
      note t = three_digits [OF d(4) digit_val_less [OF d(1)] digit_val_less [OF d(2)]
          digit_val_less [OF d(3)]]
      show ?thesis
        unfolding v show_nat_three [OF t(4,5)] t(1-3) using d 3 by simp
    qed
  qed
  ultimately show ?thesis by simp
qed


fun join_with :: "char \<Rightarrow> string list \<Rightarrow> string" where
  "join_with c [] = []"
| "join_with c [w] = w"
| "join_with c (w # ws) = w @ c # join_with c ws"

lemma join_split: "join_with c (split_on c s) = s"
proof (induction s)
  case Nil
  then show ?case by simp
next
  case (Cons d s)
  obtain w ws where ws: "split_on c s = w # ws"
    using split_on_nonempty [of c s] by (cases "split_on c s") auto
  with Cons show ?case by (cases ws) auto
qed

lemma show_parse_ipv4:
  assumes "parse_ipv4 s = Some ip"
  shows "show_ipv4 ip = s"
proof -
  obtain a b c d where oct: "map parse_octet (split_on (CHR ''.'') s) = [Some a, Some b, Some c, Some d]"
    and ip: "ip = Ipv4 a b c d"
    using assms unfolding parse_ipv4_def by (auto split: list.splits option.splits)
  then obtain u v w x where parts: "split_on (CHR ''.'') s = [u, v, w, x]"
    "parse_octet u = Some a" "parse_octet v = Some b" "parse_octet w = Some c" "parse_octet x = Some d"
    by (auto simp: map_eq_Cons_conv)
  have "show_ipv4 ip = join_with (CHR ''.'') [u, v, w, x]"
    using parts(2-5) by (simp add: ip show_parse_octet)
  also have "\<dots> = s" using join_split [of "CHR ''.''" s] by (simp add: parts(1))
  finally show ?thesis .
qed

interpretation ipv4_text: canonical_codec show_ipv4 parse_ipv4
  by unfold_locales (rule parse_show_ipv4, rule show_parse_ipv4)

section \<open>Lemmas on trimming\<close>

lemma strip_prefixes_none: "match_prefix ws s = None \<Longrightarrow> strip_prefixes ws s = s"
  by (simp add: strip_prefixes.simps)

lemma match_strip_prefixes: "match_prefix ws (strip_prefixes ws s) = None"
proof (induction ws s rule: strip_prefixes.induct)
  case (1 ws s)
  then show ?case
    by (subst strip_prefixes.simps) (cases "match_prefix ws s"; simp)
qed

lemma strip_prefixes_idem: "strip_prefixes ws (strip_prefixes ws s) = strip_prefixes ws s"
  by (simp add: strip_prefixes_none match_strip_prefixes)

lemma trim_start_idem: "trim_start (trim_start s) = trim_start s"
  by (simp add: trim_start_def strip_prefixes_idem)

lemma trim_end_idem: "trim_end (trim_end s) = trim_end s"
  by (simp add: trim_end_def strip_prefixes_idem)

text \<open>Text that neither starts nor ends with white space is left alone.\<close>

definition trimmed :: "string \<Rightarrow> bool" where
  "trimmed s = (match_prefix white_space s = None \<and> match_prefix (map rev white_space) (rev s) = None)"

lemma trim_trimmed: "trimmed s \<Longrightarrow> trim s = s"
  by (simp add: trimmed_def trim_def trim_start_def trim_end_def strip_prefixes_none)

definition printable :: "char \<Rightarrow> bool" where
  "printable c = (33 \<le> (of_char c :: nat) \<and> (of_char c :: nat) < 128)"

lemma white_space_ends:
  "w \<in> set white_space \<Longrightarrow> w \<noteq> [] \<and> \<not> printable (hd w) \<and> \<not> printable (last w)"
  by (auto simp: white_space_def bytes_str_def printable_def)

lemma trimmed_printable:
  assumes "s \<noteq> []" "printable (hd s)" "printable (last s)"
  shows "trimmed s"
proof -
  have differ: "take (length w) t \<noteq> w" if "w \<noteq> []" "t \<noteq> []" "hd w \<noteq> hd t" for w t :: string
    using that by (cases w; cases t) auto
  have "match_prefix white_space s = None"
    unfolding match_prefix_None_iff
  proof
    fix w
    assume "w \<in> set white_space"
    then have "w \<noteq> []" "hd w \<noteq> hd s" using white_space_ends assms(2) by metis+
    with differ assms(1) show "w = [] \<or> take (length w) s \<noteq> w" by blast
  qed
  moreover have "match_prefix (map rev white_space) (rev s) = None"
    unfolding match_prefix_None_iff
  proof
    fix w
    assume "w \<in> set (map rev white_space)"
    then obtain v where v: "v \<in> set white_space" "w = rev v" by auto
    then have "w \<noteq> []" "hd w \<noteq> hd (rev s)"
      using white_space_ends [OF v(1)] assms(3) by (auto simp: hd_rev)
    with differ assms(1) show "w = [] \<or> take (length w) (rev s) \<noteq> w" by simp
  qed
  ultimately show ?thesis by (simp add: trimmed_def)
qed

end
