(* ===== verification/Nat_Stun.thy ===== *)
theory Nat_Stun
  imports Text "HOL-Library.Monad_Syntax"
begin

text \<open>
  The STUN Binding client (\<open>nat/stun.rs\<close>): the request it sends, the attribute walk over
  the server's response with its panicking reads kept, and the whole exchange on a
  socket whose outcomes are arguments.
\<close>

definition STUN_MAGIC :: u32 where
  "STUN_MAGIC = 0x2112A442"

definition stun_request :: "bytes \<Rightarrow> bytes" where
  "stun_request txid = be16 0x0001 @ be16 0 @ be32 STUN_MAGIC @ txid"

text \<open>The address of a \<open>(XOR-)MAPPED-ADDRESS\<close> value of at least 8 bytes.\<close>

definition mapped_value :: "u16 \<Rightarrow> bytes \<Rightarrow> sock_addr" where
  "mapped_value atype val =
     (let magic = be32 STUN_MAGIC in
      if atype = 0x0020 then
        V4 (Ipv4 (val ! 4 XOR magic ! 0) (val ! 5 XOR magic ! 1)
                 (val ! 6 XOR magic ! 2) (val ! 7 XOR magic ! 3))
           (of_be16 (val ! 2) (val ! 3) XOR 0x2112)
      else
        V4 (Ipv4 (val ! 4) (val ! 5) (val ! 6) (val ! 7)) (of_be16 (val ! 2) (val ! 3)))"

text \<open>
  The \<open>while i + 4 <= end\<close> loop. The outer option is a panic of one of the reads, the
  inner one the routine's result.
\<close>

function parse_attrs :: "bytes \<Rightarrow> nat \<Rightarrow> nat \<Rightarrow> sock_addr option exec" where
  "parse_attrs msg lim i =
     (if i + 4 \<le> lim then do {
        t0 \<leftarrow> idx msg i;
        t1 \<leftarrow> idx msg (i + 1);
        l0 \<leftarrow> idx msg (i + 2);
        l1 \<leftarrow> idx msg (i + 3);
        let atype = of_be16 t0 t1;
        let alen = unat (of_be16 l0 l1);
        let v = i + 4;
        if v + alen > length msg then Some None
        else do {
          val \<leftarrow> slice msg v (v + alen);
          if (atype = 0x0020 \<or> atype = 0x0001) \<and> length val \<ge> 8 \<and> val ! 1 = 0x01
          then Some (Some (mapped_value atype val))
          else parse_attrs msg lim (v + alen + ((4 - alen mod 4) mod 4))
        }
      } else Some None)"
  by pat_completeness auto
termination
  by (relation "measure (\<lambda>(msg, lim, i). lim - i)") auto

declare parse_attrs.simps [simp del]

definition parse_mapped :: "bytes \<Rightarrow> sock_addr option exec" where
  "parse_mapped msg =
     (if length msg < 20 then Some None
      else do {
        b0 \<leftarrow> idx msg 0;
        b1 \<leftarrow> idx msg 1;
        if of_be16 b0 b1 \<noteq> 0x0101 then Some None
        else do {
          m0 \<leftarrow> idx msg 2;
          m1 \<leftarrow> idx msg 3;
          let mlen = unat (of_be16 m0 m1);
          parse_attrs msg (min (20 + mlen) (length msg)) 20
        }
      })"

text \<open>
  \<open>stun_binding\<close>: \<open>set_timeout\<close> and \<open>send\<close> are the outcomes of the two socket calls, \<open>reply\<close> the
  datagram received (\<open>None\<close>: time-out or error), cut to the 512-byte buffer. The result
  lists the datagrams sent to the server and the parsed address.
\<close>

definition stun_binding ::
  "bytes \<Rightarrow> bool \<Rightarrow> bool \<Rightarrow> bytes option \<Rightarrow> (bytes list \<times> sock_addr option) exec" where
  "stun_binding txid set_timeout send reply =
     (if \<not> set_timeout then Some ([], None)
      else if \<not> send then Some ([], None)
      else case reply of
             None \<Rightarrow> Some ([stun_request txid], None)
           | Some dgram \<Rightarrow>
               map_option (Pair [stun_request txid]) (parse_mapped (take 512 dgram)))"

section \<open>The reads stay in range\<close>

lemma parse_attrs_total: "lim \<le> length msg \<Longrightarrow> parse_attrs msg lim i \<noteq> None"
proof (induction msg lim i rule: parse_attrs.induct)
  case (1 msg lim i)
  show ?case
  proof (cases "i + 4 \<le> lim")
    case False
    then show ?thesis by (simp add: parse_attrs.simps [of msg lim i])
  next
    case True
    let ?alen = "unat (of_be16 (msg ! (i + 2)) (msg ! (i + 3)))"
    have reads: "idx msg i = Some (msg ! i)" "idx msg (i + 1) = Some (msg ! (i + 1))"
      "idx msg (i + 2) = Some (msg ! (i + 2))" "idx msg (i + 3) = Some (msg ! (i + 3))"
      using True "1.prems" by simp_all
    show ?thesis
    proof (cases "i + 4 + ?alen > length msg")
      case over: True
      then show ?thesis using True reads
        by (simp add: parse_attrs.simps [of msg lim i] Let_def)
    next
      case False
      then have "slice msg (i + 4) (i + 4 + ?alen) = Some (take ?alen (drop (i + 4) msg))"
        by simp
      moreover have "parse_attrs msg lim (i + 4 + ?alen + (4 - ?alen mod 4) mod 4) \<noteq> None"
        if "\<not> ((of_be16 (msg ! i) (msg ! (i + 1)) = 0x0020 \<or> of_be16 (msg ! i) (msg ! (i + 1)) = 0x0001) \<and>
          length (take ?alen (drop (i + 4) msg)) \<ge> 8 \<and> take ?alen (drop (i + 4) msg) ! 1 = 0x01)"
        using "1.IH" [OF True reads refl refl refl False calculation that "1.prems"] .
      ultimately show ?thesis using True False reads
        by (simp add: parse_attrs.simps [of msg lim i] Let_def del: length_take)
    qed
  qed
qed

lemma parse_mapped_reads:
  assumes "20 \<le> length msg"
  shows "parse_mapped msg =
    (if of_be16 (msg ! 0) (msg ! 1) \<noteq> 0x0101 then Some None
     else parse_attrs msg (min (20 + unat (of_be16 (msg ! 2) (msg ! 3))) (length msg)) 20)"
proof -
  have "idx msg 0 = Some (msg ! 0)" "idx msg 1 = Some (msg ! 1)"
    "idx msg 2 = Some (msg ! 2)" "idx msg 3 = Some (msg ! 3)"
    using assms by (auto simp: idx_def)
  then show ?thesis using assms by (simp add: parse_mapped_def Let_def)
qed

lemma parse_mapped_total: "parse_mapped msg \<noteq> None"
proof (cases "length msg < 20")
  case True
  then show ?thesis by (simp add: parse_mapped_def)
next
  case False
  then show ?thesis
    using parse_attrs_total [of "min (20 + unat (of_be16 (msg ! 2) (msg ! 3))) (length msg)" msg 20]
    by (simp add: parse_mapped_reads)
qed


section \<open>What a server sends\<close>

text \<open>
  The reference encoder of RFC 5389, used to state what the parser must find: attributes
  padded to four bytes, and the address XORed with the magic cookie.
\<close>

definition stun_attr :: "u16 \<Rightarrow> bytes \<Rightarrow> bytes" where
  "stun_attr t v = be16 t @ be16 (of_nat (length v)) @ v @ replicate ((4 - length v mod 4) mod 4) 0"

definition xor_mapped :: "ipv4 \<Rightarrow> u16 \<Rightarrow> bytes" where
  "xor_mapped ip port = [0, 1] @ be16 (port XOR 0x2112) @ map2 (XOR) (octets ip) (be32 STUN_MAGIC)"

definition stun_body :: "(u16 \<times> bytes) list \<Rightarrow> ipv4 \<Rightarrow> u16 \<Rightarrow> bytes \<Rightarrow> bytes" where
  "stun_body attrs ip port tail =
     concat (map (\<lambda>(t, v). stun_attr t v) attrs) @ stun_attr 0x0020 (xor_mapped ip port) @ tail"

definition stun_response :: "bytes \<Rightarrow> bytes \<Rightarrow> bytes" where
  "stun_response txid body =
     be16 0x0101 @ be16 (of_nat (length body)) @ be32 STUN_MAGIC @ txid @ body"

lemma length_stun_attr:
  "length (stun_attr t v) = 4 + length v + (4 - length v mod 4) mod 4"
  by (simp add: stun_attr_def)

lemma length_xor_mapped [simp]: "length (xor_mapped ip port) = 8"
  by (cases ip) (simp add: xor_mapped_def be32_def)

lemma attr_reads:
  fixes pre rest :: bytes
  assumes "msg = pre @ stun_attr t v @ rest" "length v < 65536" "i = length pre"
  shows "of_be16 (msg ! i) (msg ! (i + 1)) = t"
    "unat (of_be16 (msg ! (i + 2)) (msg ! (i + 3))) = length v"
    "take (length v) (drop (i + 4) msg) = v"
    "idx msg i = Some (msg ! i)" "idx msg (i + 1) = Some (msg ! (i + 1))"
    "idx msg (i + 2) = Some (msg ! (i + 2))" "idx msg (i + 3) = Some (msg ! (i + 3))"
    "\<not> i + 4 + length v > length msg"
    "slice msg (i + 4) (i + 4 + length v) = Some v"
  using assms
  by (simp_all add: stun_attr_def be16_def nth_append of_be16_be16 unat_of_nat_u16 slice_def)

lemma parse_attrs_skip:
  assumes "msg = pre @ stun_attr t v @ rest" "length v < 65536" "t \<notin> {0x0020, 0x0001}"
    and "length pre + 4 \<le> lim"
  shows "parse_attrs msg lim (length pre) = parse_attrs msg lim (length (pre @ stun_attr t v))"
proof -
  note r = attr_reads [OF assms(1,2) refl]
  show ?thesis
    using assms(3,4) r
    by (subst parse_attrs.simps) (simp add: Let_def length_stun_attr add.assoc)
qed

lemma mapped_value_xor: "mapped_value 0x0020 (xor_mapped ip port) = V4 ip port"
proof (cases ip)
  case (Ipv4 a b c d)
  have "of_be16 (be16 (port XOR 0x2112) ! 0) (be16 (port XOR 0x2112) ! 1) XOR 0x2112 = port"
    by (simp add: of_be16_nth [simplified] xor.assoc)
  then show ?thesis
    by (simp add: Ipv4 mapped_value_def xor_mapped_def Let_def be16_def be32_def xor.assoc)
qed

lemma parse_attrs_hit:
  assumes "msg = pre @ stun_attr 0x0020 (xor_mapped ip port) @ rest" "length pre + 4 \<le> lim"
  shows "parse_attrs msg lim (length pre) = Some (Some (V4 ip port))"
proof -
  have len: "length (xor_mapped ip port) < 65536" by simp
  have one: "xor_mapped ip port ! 1 = 1" by (simp add: xor_mapped_def)
  note r = attr_reads [OF assms(1) len refl]
  show ?thesis
    using assms(2) r one
    by (subst parse_attrs.simps) (simp add: Let_def mapped_value_xor)
qed

lemma parse_attrs_finds:
  assumes "\<forall>(t, v) \<in> set attrs. length v < 65536 \<and> t \<notin> {0x0020, 0x0001}"
    and "msg = pre @ stun_body attrs ip port tail" "length msg \<le> lim"
  shows "parse_attrs msg lim (length pre) = Some (Some (V4 ip port))"
  using assms
proof (induction attrs arbitrary: pre)
  case Nil
  then show ?case
    by (intro parse_attrs_hit [of _ _ _ _ tail]) (auto simp: stun_body_def length_stun_attr)
next
  case (Cons a attrs)
  obtain t v where a: "a = (t, v)" by force
  have msg: "msg = pre @ stun_attr t v @ stun_body attrs ip port tail"
    using Cons.prems(2) by (simp add: stun_body_def a)
  then have "parse_attrs msg lim (length pre) = parse_attrs msg lim (length (pre @ stun_attr t v))"
    using Cons.prems(1,3) a by (intro parse_attrs_skip [OF msg]) (auto simp: length_stun_attr)
  also have "\<dots> = Some (Some (V4 ip port))"
    using Cons.prems(1,3) msg by (intro Cons.IH) auto
  finally show ?case .
qed

lemma parse_stun_response:
  assumes "length txid = 12" "length (stun_body attrs ip port tail) < 65536"
    and "\<forall>(t, v) \<in> set attrs. length v < 65536 \<and> t \<notin> {0x0020, 0x0001}"
  shows "parse_mapped (stun_response txid (stun_body attrs ip port tail)) = Some (Some (V4 ip port))"
proof -
  let ?body = "stun_body attrs ip port tail"
  let ?head = "be16 0x0101 @ be16 (of_nat (length ?body)) @ be32 STUN_MAGIC @ txid"
  let ?msg = "stun_response txid ?body"
  have msg: "?msg = ?head @ ?body" by (simp add: stun_response_def)
  have head: "length ?head = 20" using assms(1) by simp
  have len: "length ?msg = 20 + length ?body" by (subst msg) (simp add: assms(1))
  have "of_be16 (?msg ! 0) (?msg ! 1) = 0x0101"
    by (simp add: stun_response_def be16_def of_be16_def)
  moreover have "unat (of_be16 (?msg ! 2) (?msg ! 3)) = length ?body"
    using assms(2)
    by (simp add: stun_response_def be16_def of_be16_be16 unat_of_nat_u16 nth_append)
  moreover have "parse_attrs ?msg (20 + length ?body) 20 = Some (Some (V4 ip port))"
    using parse_attrs_finds [OF assms(3) msg, of "20 + length ?body"] assms(1)
    by (simp add: len)
  ultimately show ?thesis using len by (simp add: parse_mapped_reads)
qed


section \<open>The parser reads neither the cookie nor the transaction id\<close>

lemma nth_from_20:
  assumes "drop 20 msg = drop 20 msg'" "20 \<le> i" "i < length msg" "length msg = length msg'"
  shows "msg ! i = msg' ! i"
proof -
  obtain j where i: "i = 20 + j" using assms(2) le_Suc_ex by blast
  have "msg ! i = drop 20 msg ! j" using assms(3) i by simp
  also have "\<dots> = drop 20 msg' ! j" by (simp only: assms(1))
  also have "\<dots> = msg' ! i" using assms(3,4) i by simp
  finally show ?thesis .
qed

lemma parse_attrs_body_only:
  assumes "drop 20 msg = drop 20 msg'" "length msg = length msg'" "lim \<le> length msg"
  shows "20 \<le> i \<Longrightarrow> parse_attrs msg lim i = parse_attrs msg' lim i"
  using assms
proof (induction msg lim i rule: parse_attrs.induct)
  case (1 msg lim i)
  show ?case
  proof (cases "i + 4 \<le> lim")
    case False
    then show ?thesis by (simp add: parse_attrs.simps)
  next
    case True
    have rd: "idx msg k = Some (msg' ! k)" "idx msg' k = Some (msg' ! k)" "msg ! k = msg' ! k"
      if "k \<in> {i, i + 1, i + 2, i + 3}" for k
      using that True "1.prems" nth_from_20 [of msg msg' k] by auto
    have "drop 20 msg = drop 20 msg' \<Longrightarrow> slice msg (i + 4) j = slice msg' (i + 4) j" for j
    proof -
      have "drop (i + 4) msg = drop (i - 16) (drop 20 msg)" "drop (i + 4) msg' = drop (i - 16) (drop 20 msg')"
        using "1.prems"(1) by (simp_all add: add.commute)
      then show ?thesis using "1.prems" by (simp add: slice_def)
    qed
    then have sl: "slice msg (i + 4) j = slice msg' (i + 4) j" for j using "1.prems" by blast
    let ?alen = "unat (of_be16 (msg' ! (i + 2)) (msg' ! (i + 3)))"
    have rec: "parse_attrs msg lim (i + 4 + ?alen + (4 - ?alen mod 4) mod 4) =
        parse_attrs msg' lim (i + 4 + ?alen + (4 - ?alen mod 4) mod 4)"
      if "\<not> i + 4 + ?alen > length msg" "slice msg (i + 4) (i + 4 + ?alen) = Some val"
        "\<not> ((of_be16 (msg' ! i) (msg' ! (i + 1)) = 0x0020 \<or> of_be16 (msg' ! i) (msg' ! (i + 1)) = 0x0001) \<and>
          length val \<ge> 8 \<and> val ! 1 = 0x01)" for val
      using that "1.prems" True by (intro "1.IH" [OF True rd(1) rd(1) rd(1) rd(1) refl refl refl]) auto
    let ?hit = "\<lambda>val. (of_be16 (msg' ! i) (msg' ! (i + 1)) = 0x0020 \<or>
        of_be16 (msg' ! i) (msg' ! (i + 1)) = 0x0001) \<and> length val \<ge> 8 \<and> val ! 1 = 0x01"
    show ?thesis
    proof (cases "i + 4 + ?alen > length msg")
      case over: True
      then have "i + 4 + ?alen > length msg'" using "1.prems"(3) by metis
      then show ?thesis
        using True rd over
        by (simp add: parse_attrs.simps [of msg lim i] parse_attrs.simps [of msg' lim i] Let_def)
    next
      case False
      then obtain val where val: "slice msg' (i + 4) (i + 4 + ?alen) = Some val"
        using "1.prems"(3) by simp
      with sl have "slice msg (i + 4) (i + 4 + ?alen) = Some val" by metis
      with False True rd val rec [of val] "1.prems"(3) show ?thesis
        by (cases "?hit val")
          (auto simp: parse_attrs.simps [of msg lim i] parse_attrs.simps [of msg' lim i] Let_def
            simp del: slice_in)
    qed
  qed
qed

lemma parse_mapped_ignores:
  assumes "length h = 4" "length x = 16" "length y = 16"
  shows "parse_mapped (h @ x @ body) = parse_mapped (h @ y @ body)"
proof -
  have hd: "(h @ x @ body) ! k = (h @ y @ body) ! k" if "k < 4" for k
    using that assms(1) by (simp add: nth_append)
  have "parse_attrs (h @ x @ body) (min (20 + m) (length (h @ x @ body))) 20 =
      parse_attrs (h @ y @ body) (min (20 + m) (length (h @ y @ body))) 20" for m
    using assms by (subst parse_attrs_body_only [of _ "h @ y @ body"]) simp_all
  then show ?thesis
    using assms hd [of 0] hd [of 1] hd [of 2] hd [of 3] by (simp add: parse_mapped_reads)
qed


section \<open>Properties\<close>

text \<open>
  C32: Whatever a server (or anyone else) sends back, the STUN client terminates and none of its
  reads of the response is out of range: the attribute walk is safe for every byte string.
\<close>

theorem stun_never_panics: "stun_binding txid set_timeout send reply \<noteq> None"
  using parse_mapped_total by (auto simp: stun_binding_def split: option.splits)

text \<open>
  C31: A Binding Success Response laid out as RFC 5389 says, with any other attributes before
  the XOR-MAPPED-ADDRESS and anything after it, yields exactly the reflexive address, and
  the request sent for it is one Binding Request.
\<close>

theorem stun_recovers_mapping:
  assumes "length txid = 12" "length (stun_response txid (stun_body attrs ip port tail)) \<le> 512"
    and "\<forall>(t, v) \<in> set attrs. t \<notin> {0x0020, 0x0001}"
  shows "stun_binding txid True True (Some (stun_response txid (stun_body attrs ip port tail))) =
    Some ([stun_request txid], Some (V4 ip port))"
proof -
  have body: "length (stun_body attrs ip port tail) \<le> 492"
    using assms(1,2) by (simp add: stun_response_def)
  have "length v < 65536" if "(t, v) \<in> set attrs" for t v
  proof -
    have "length (stun_attr t v) \<le> length (concat (map (\<lambda>(t, v). stun_attr t v) attrs))"
      unfolding length_concat map_map comp_def
      using that by (intro member_le_sum_list) (force simp: image_iff)+
    then show ?thesis using body by (simp add: stun_body_def length_stun_attr)
  qed
  then have "\<forall>(t, v) \<in> set attrs. length v < 65536 \<and> t \<notin> {0x0020, 0x0001}"
    using assms(3) by fastforce
  then show ?thesis
    using parse_stun_response [OF assms(1), of attrs ip port tail] body assms(2)
    by (simp add: stun_binding_def)
qed

theorem stun_recovers_mapping_witness:
  "stun_binding (replicate 12 7) True True
     (Some (stun_response (replicate 12 7) (stun_body [(0x8022, [1, 2, 3])] (Ipv4 203 0 113 9) 40000 []))) =
   Some ([stun_request (replicate 12 7)], Some (V4 (Ipv4 203 0 113 9) 40000))"
  by (rule stun_recovers_mapping) (simp_all add: stun_response_def stun_body_def length_stun_attr)

text \<open>
  The client does not compare the magic cookie or the transaction id of a response with
  its request: replacing the 16 bytes that hold them changes nothing in the result.
\<close>

theorem stun_ignores_transaction_id:
  assumes "length head = 4" "length ids = 16" "length ids' = 16"
  shows "stun_binding txid set_timeout send (Some (head @ ids @ body)) =
    stun_binding txid set_timeout send (Some (head @ ids' @ body))"
proof -
  have "take 512 (head @ i @ body) = head @ i @ take 492 body" if "length i = 16" for i
    using that assms(1) by simp
  then show ?thesis
    using assms parse_mapped_ignores [OF assms, of "take 492 body"]
    by (simp add: stun_binding_def)
qed

theorem stun_ignores_transaction_id_witness:
  "stun_binding (replicate 12 7) True True
     (Some ([1, 1, 0, 12] @ replicate 16 0 @ stun_attr 0x0020 (xor_mapped (Ipv4 10 0 0 1) 80))) =
   stun_binding (replicate 12 7) True True
     (Some ([1, 1, 0, 12] @ replicate 16 9 @ stun_attr 0x0020 (xor_mapped (Ipv4 10 0 0 1) 80)))"
  by (rule stun_ignores_transaction_id) simp_all

end
