(* ===== verification/Nat_Punch.thy ===== *)
theory Nat_Punch
  imports Text
begin

text \<open>
  The UDP hole-punch primitive (\<open>nat/punch.rs\<close>, \<open>hole_punch\<close>) and the round-trip
  confirmation that follows it (\<open>transport/punch.rs\<close>, \<open>confirm_round_trip\<close>). Both are
  loops that poll a clock and a socket. What the clock and the socket answer in one
  iteration is a \<open>punch_tick\<close>, and a loop is run over a list of ticks: it either is still
  running when the list ends or has ended with its result. The first component of a run is
  the list of datagrams sent, with their destinations. Times are milliseconds of the
  monotonic clock.
\<close>

definition PUNCH_MAGIC :: bytes where
  "PUNCH_MAGIC = [0x6d, 0x64, 0x70, 0x75, 0x6e, 0x63, 0x68, 0x31]" \<comment> \<open>\<open>b"mdpunch1"\<close>\<close>

definition PUNCH_PING :: bytes where
  "PUNCH_PING = PUNCH_MAGIC"

definition PUNCH_PONG :: bytes where
  "PUNCH_PONG = [0x6d, 0x64, 0x70, 0x6f, 0x6e, 0x67, 0x30, 0x31]" \<comment> \<open>\<open>b"mdpong01"\<close>\<close>

record punch_tick =
  t_loop :: nat     \<comment> \<open>the clock at the loop's deadline test\<close>
  t_elapsed :: nat  \<comment> \<open>the clock at the \<open>elapsed()\<close> test\<close>
  t_sent :: nat     \<comment> \<open>the clock after the probes were sent\<close>
  dgram :: "(bytes \<times> sock_addr) option" \<comment> \<open>\<open>recv_from\<close>: \<open>None\<close> is a time-out or an error\<close>

datatype 'a loop_result = Running | Ended 'a

type_synonym sends = "(bytes \<times> sock_addr) list"

text \<open>\<open>Instant::now().checked_sub(1s).unwrap_or_else(Instant::now)\<close>.\<close>

definition one_second_before :: "nat \<Rightarrow> nat" where
  "one_second_before now = (if now \<ge> 1000 then now - 1000 else now)"

section \<open>\<open>hole_punch\<close>\<close>

text \<open>The datagram, cut to the 64-byte buffer, starts with the magic bytes.\<close>

definition is_probe :: "bytes \<Rightarrow> bytes \<Rightarrow> bool" where
  "is_probe magic b =
     (length magic \<le> length (take 64 b) \<and> take (length magic) (take 64 b) = magic)"

fun hole_punch_loop ::
  "sock_addr list \<Rightarrow> bytes \<Rightarrow> nat \<Rightarrow> nat \<Rightarrow> punch_tick list \<Rightarrow> sends \<times> sock_addr option loop_result" where
  "hole_punch_loop cands magic deadline last_send [] = ([], Running)"
| "hole_punch_loop cands magic deadline last_send (t # ts) =
     (if t_loop t \<ge> deadline then ([], Ended None)
      else let due = t_elapsed t - last_send \<ge> 50;
               probes = (if due then map (Pair magic) cands else []);
               last_send' = (if due then t_sent t else last_send);
               (sent, r) = hole_punch_loop cands magic deadline last_send' ts
           in case dgram t of
                Some (b, src) \<Rightarrow>
                  if is_probe magic b then (probes @ [(magic, src)], Ended (Some src))
                  else (probes @ sent, r)
              | None \<Rightarrow> (probes @ sent, r))"

definition hole_punch ::
  "bool \<Rightarrow> nat \<Rightarrow> sock_addr list \<Rightarrow> bytes \<Rightarrow> nat \<Rightarrow> punch_tick list \<Rightarrow> sends \<times> sock_addr option loop_result"
where
  "hole_punch set_timeout now cands magic tot ticks =
     (if \<not> set_timeout then ([], Ended None)
      else hole_punch_loop cands magic (now + tot) (one_second_before now) ticks)"

section \<open>\<open>confirm_round_trip\<close>\<close>

fun confirm_loop ::
  "nat \<Rightarrow> nat \<Rightarrow> sock_addr \<Rightarrow> punch_tick list \<Rightarrow> sends \<times> sock_addr option loop_result" where
  "confirm_loop deadline last_ping peer_addr [] = ([], Running)"
| "confirm_loop deadline last_ping peer_addr (t # ts) =
     (if t_loop t \<ge> deadline then ([], Ended None)
      else let due = t_elapsed t - last_ping \<ge> 150;
               pings = (if due then [(PUNCH_PING, peer_addr)] else []);
               last_ping' = (if due then t_sent t else last_ping)
           in case dgram t of
                Some (b, src) \<Rightarrow>
                  if take 1500 b = PUNCH_PONG then (pings, Ended (Some src))
                  else if take 1500 b = PUNCH_PING then
                    (let (sent, r) = confirm_loop deadline last_ping' src ts
                     in (pings @ (PUNCH_PONG, src) # sent, r))
                  else (let (sent, r) = confirm_loop deadline last_ping' peer_addr ts
                        in (pings @ sent, r))
              | None \<Rightarrow> (let (sent, r) = confirm_loop deadline last_ping' peer_addr ts
                         in (pings @ sent, r)))"

definition confirm_round_trip ::
  "nat \<Rightarrow> sock_addr \<Rightarrow> punch_tick list \<Rightarrow> sends \<times> sock_addr option loop_result" where
  "confirm_round_trip now peer_addr ticks =
     confirm_loop (now + 3000) (one_second_before now) peer_addr ticks"

section \<open>What the loops return\<close>

text \<open>The loop is passed by: in time, and no datagram that ends it.\<close>

definition quiet :: "(bytes \<Rightarrow> bool) \<Rightarrow> nat \<Rightarrow> punch_tick \<Rightarrow> bool" where
  "quiet P deadline t =
     (t_loop t < deadline \<and> (case dgram t of Some (b, src) \<Rightarrow> \<not> P b | None \<Rightarrow> True))"

definition answered_by :: "(bytes \<Rightarrow> bool) \<Rightarrow> nat \<Rightarrow> punch_tick \<Rightarrow> sock_addr \<Rightarrow> bool" where
  "answered_by P deadline t src =
     (t_loop t < deadline \<and> (\<exists>b. dgram t = Some (b, src) \<and> P b))"

definition is_pong :: "bytes \<Rightarrow> bool" where
  "is_pong b = (take 1500 b = PUNCH_PONG)"

text \<open>The outcome of a polling loop that looks for a datagram satisfying \<open>P\<close>.\<close>

fun poll_outcome :: "(bytes \<Rightarrow> bool) \<Rightarrow> nat \<Rightarrow> punch_tick list \<Rightarrow> sock_addr option loop_result" where
  "poll_outcome P deadline [] = Running"
| "poll_outcome P deadline (t # ts) =
     (if t_loop t \<ge> deadline then Ended None
      else case dgram t of
             Some (b, src) \<Rightarrow> if P b then Ended (Some src) else poll_outcome P deadline ts
           | None \<Rightarrow> poll_outcome P deadline ts)"

lemma hole_punch_loop_outcome:
  "snd (hole_punch_loop cands magic deadline t0 ts) = poll_outcome (is_probe magic) deadline ts"
  by (induction ts arbitrary: t0) (auto simp: Let_def case_prod_unfold split: option.splits)

lemma confirm_loop_outcome:
  "snd (confirm_loop deadline t0 peer ts) = poll_outcome is_pong deadline ts"
  by (induction ts arbitrary: t0 peer)
     (auto simp: Let_def is_pong_def case_prod_unfold split: option.splits)

lemma poll_outcome_Some_iff:
  "poll_outcome P deadline ts = Ended (Some src) \<longleftrightarrow>
   (\<exists>pre t post. ts = pre @ t # post \<and> (\<forall>u \<in> set pre. quiet P deadline u) \<and>
      answered_by P deadline t src)"
proof (induction ts)
  case Nil
  then show ?case by simp
next
  case (Cons t ts)
  have split: "(\<exists>pre u post. t # ts = pre @ u # post \<and> Q pre u) \<longleftrightarrow>
      Q [] t \<or> (\<exists>pre u post. ts = pre @ u # post \<and> Q (t # pre) u)" for Q
    by (auto simp: Cons_eq_append_conv)
  show ?case
    unfolding split using Cons
    by (auto simp: quiet_def answered_by_def split: option.splits prod.splits)
qed

lemma poll_outcome_None_iff:
  "poll_outcome P deadline ts = Ended None \<longleftrightarrow>
   (\<exists>pre t post. ts = pre @ t # post \<and> (\<forall>u \<in> set pre. quiet P deadline u) \<and> t_loop t \<ge> deadline)"
proof (induction ts)
  case Nil
  then show ?case by simp
next
  case (Cons t ts)
  have split: "(\<exists>pre u post. t # ts = pre @ u # post \<and> Q pre u) \<longleftrightarrow>
      Q [] t \<or> (\<exists>pre u post. ts = pre @ u # post \<and> Q (t # pre) u)" for Q
    by (auto simp: Cons_eq_append_conv)
  show ?case
    unfolding split using Cons
    by (auto simp: quiet_def not_le split: option.splits prod.splits)
qed

lemma poll_outcome_Running_iff:
  "poll_outcome P deadline ts = Running \<longleftrightarrow> (\<forall>u \<in> set ts. quiet P deadline u)"
  by (induction ts) (auto simp: quiet_def split: option.splits)


section \<open>What the loops send\<close>

lemma hole_punch_loop_sends:
  "set (fst (hole_punch_loop cands magic deadline t0 ts)) \<subseteq>
     {(magic, a) | a. a \<in> set cands \<or> poll_outcome (is_probe magic) deadline ts = Ended (Some a)}"
  by (induction ts arbitrary: t0)
     (fastforce simp: Let_def case_prod_unfold split: option.splits if_splits)+

lemma hole_punch_loop_ack:
  "poll_outcome (is_probe magic) deadline ts = Ended (Some src) \<Longrightarrow>
   fst (hole_punch_loop cands magic deadline t0 ts) \<noteq> [] \<and>
   last (fst (hole_punch_loop cands magic deadline t0 ts)) = (magic, src)"
  by (induction ts arbitrary: t0)
     (auto simp: Let_def case_prod_unfold split: option.splits if_splits)

lemma ping_pong_lengths: "length PUNCH_PING = 8" "length PUNCH_PONG = 8" "PUNCH_PING \<noteq> PUNCH_PONG"
  by (simp_all add: PUNCH_PING_def PUNCH_PONG_def PUNCH_MAGIC_def)

lemma take_1500_exact: "length c = 8 \<Longrightarrow> take 1500 b = c \<longleftrightarrow> b = c"
  by (auto simp: min_def split: if_splits)

lemma confirm_pong_sent:
  "(PUNCH_PONG, a) \<in> set (fst (confirm_loop deadline t0 peer ts)) \<Longrightarrow>
   \<exists>t \<in> set ts. dgram t = Some (PUNCH_PING, a)"
proof (induction ts arbitrary: t0 peer)
  case Nil
  then show ?case by simp
next
  case (Cons t ts)
  then show ?case
    using ping_pong_lengths
    by (fastforce simp: Let_def case_prod_unfold take_1500_exact split: option.splits if_splits)
qed

lemma confirm_ping_sent:
  "(PUNCH_PING, a) \<in> set (fst (confirm_loop deadline t0 peer ts)) \<Longrightarrow>
   a = peer \<or> (\<exists>t \<in> set ts. dgram t = Some (PUNCH_PING, a))"
proof (induction ts arbitrary: t0 peer)
  case Nil
  then show ?case by simp
next
  case (Cons t ts)
  then show ?case
    using ping_pong_lengths
    by (fastforce simp: Let_def case_prod_unfold take_1500_exact split: option.splits if_splits)
qed

section \<open>Properties\<close>

text \<open>
  C33: The hole punch succeeds with an address exactly when, before the deadline, the first
  datagram that starts with the magic bytes comes from that address; it gives up exactly
  when the deadline passes first; and it is still polling otherwise.
\<close>

theorem hole_punch_outcome:
  "(snd (hole_punch True now cands magic tot ticks) = Ended (Some src) \<longleftrightarrow>
      (\<exists>pre t post. ticks = pre @ t # post \<and>
        list_all (quiet (is_probe magic) (now + tot)) pre \<and>
        answered_by (is_probe magic) (now + tot) t src)) \<and>
   (snd (hole_punch True now cands magic tot ticks) = Ended None \<longleftrightarrow>
      (\<exists>pre t post. ticks = pre @ t # post \<and>
        list_all (quiet (is_probe magic) (now + tot)) pre \<and> t_loop t \<ge> now + tot)) \<and>
   (snd (hole_punch True now cands magic tot ticks) = Running \<longleftrightarrow>
      list_all (quiet (is_probe magic) (now + tot)) ticks)"
  by (simp add: hole_punch_def hole_punch_loop_outcome poll_outcome_Some_iff
      poll_outcome_None_iff list_all_iff poll_outcome_Running_iff)

text \<open>
  The hole punch sends nothing but the magic bytes, only to the candidates and to the
  address it returns, and when it returns an address the last thing it sent is the
  acknowledgement to that address.
\<close>

theorem hole_punch_traffic:
  assumes "hole_punch set_timeout now cands magic tot ticks = (sent, r)"
  shows "(\<forall>(b, a) \<in> set sent. b = magic \<and> (a \<in> set cands \<or> r = Ended (Some a))) \<and>
    (\<forall>src. r = Ended (Some src) \<longrightarrow> sent \<noteq> [] \<and> last sent = (magic, src))"
proof (cases set_timeout)
  case True
  let ?run = "hole_punch_loop cands magic (now + tot) (one_second_before now) ticks"
  have run: "fst ?run = sent" "r = poll_outcome (is_probe magic) (now + tot) ticks"
    using assms True hole_punch_loop_outcome [of cands magic "now + tot" "one_second_before now" ticks]
    by (simp_all add: hole_punch_def)
  show ?thesis
    using hole_punch_loop_sends [of cands magic "now + tot" "one_second_before now" ticks]
      hole_punch_loop_ack [of magic "now + tot" ticks _ cands "one_second_before now"]
    unfolding run(1) run(2) [symmetric] by fastforce
next
  case False
  with assms show ?thesis by (auto simp: hole_punch_def)
qed

theorem hole_punch_traffic_witness:
  "let a = V4 (Ipv4 1 2 3 4) 5; b = V4 (Ipv4 9 9 9 9) 7;
       sent = [(PUNCH_MAGIC, a), (PUNCH_MAGIC, b)] in
   (\<forall>(c, d) \<in> set sent. c = PUNCH_MAGIC \<and> (d \<in> set [a] \<or> Ended (Some b) = Ended (Some d))) \<and>
   (\<forall>src. Ended (Some b) = Ended (Some src) \<longrightarrow> sent \<noteq> [] \<and> last sent = (PUNCH_MAGIC, src))"
  unfolding Let_def
  by (rule hole_punch_traffic [where now = 2000 and tot = 8000 and set_timeout = True and
        ticks = "[\<lparr>t_loop = 2000, t_elapsed = 2000, t_sent = 2001,
                  dgram = Some (PUNCH_MAGIC @ [0], V4 (Ipv4 9 9 9 9) 7)\<rparr>]"])
     (simp add: hole_punch_def one_second_before_def is_probe_def PUNCH_MAGIC_def)

text \<open>
  C21: A confirmed link is usable in both directions. Suppose every datagram one side receives
  from the other's address was sent by that side. If side \<open>a\<close>'s confirmation returns \<open>b\<close>'s
  address, then \<open>b\<close> did receive a ping that \<open>a\<close> sent to it, besides \<open>a\<close> having received
  \<open>b\<close>'s pong; a one-way path is never confirmed.
\<close>

theorem confirm_proves_round_trip:
  assumes "confirm_round_trip now_a peer_a ticks_a = (sent_a, Ended (Some b))"
    and "confirm_round_trip now_b peer_b ticks_b = (sent_b, r_b)"
    and "\<forall>t \<in> set ticks_a. \<forall>d. dgram t = Some (d, b) \<longrightarrow> (d, a) \<in> set sent_b"
    and "\<forall>t \<in> set ticks_b. \<forall>d. dgram t = Some (d, a) \<longrightarrow> (d, b) \<in> set sent_a"
  shows "(\<exists>t \<in> set ticks_a. dgram t = Some (PUNCH_PONG, b)) \<and>
    (\<exists>t \<in> set ticks_b. dgram t = Some (PUNCH_PING, a)) \<and> (PUNCH_PING, b) \<in> set sent_a"
proof -
  have "poll_outcome is_pong (now_a + 3000) ticks_a = Ended (Some b)"
    using assms(1) confirm_loop_outcome [of "now_a + 3000" "one_second_before now_a" peer_a ticks_a]
    by (simp add: confirm_round_trip_def)
  then have "\<exists>t \<in> set ticks_a. dgram t = Some (PUNCH_PONG, b)"
    unfolding poll_outcome_Some_iff
    by (auto simp: answered_by_def is_pong_def take_1500_exact ping_pong_lengths)
  then obtain t where t: "t \<in> set ticks_a" "dgram t = Some (PUNCH_PONG, b)" ..
  then have "(PUNCH_PONG, a) \<in> set sent_b" using assms(3) by blast
  then obtain u where u: "u \<in> set ticks_b" "dgram u = Some (PUNCH_PING, a)"
    using confirm_pong_sent assms(2) unfolding confirm_round_trip_def by (metis fst_conv)
  with t assms(4) show ?thesis by blast
qed


theorem confirm_proves_round_trip_witness:
  "let a = V4 (Ipv4 10 0 0 1) 1000; b = V4 (Ipv4 10 0 0 2) 2000;
       hears = (\<lambda>now d p. \<lparr>t_loop = now, t_elapsed = now, t_sent = now, dgram = Some (d, p)\<rparr>);
       ticks_a = [hears 5000 PUNCH_PING b, hears 5020 PUNCH_PONG b];
       ticks_b = [hears 7000 PUNCH_PING a, hears 7020 PUNCH_PONG a];
       sent_a = [(PUNCH_PING, b), (PUNCH_PONG, b)] in
   (\<exists>t \<in> set ticks_a. dgram t = Some (PUNCH_PONG, b)) \<and>
   (\<exists>t \<in> set ticks_b. dgram t = Some (PUNCH_PING, a)) \<and> (PUNCH_PING, b) \<in> set sent_a"
  unfolding Let_def
  by (rule confirm_proves_round_trip [where now_a = 5000 and now_b = 7000 and
        peer_a = "V4 (Ipv4 10 0 0 2) 2000" and peer_b = "V4 (Ipv4 10 0 0 1) 1000" and
        sent_b = "[(PUNCH_PING, V4 (Ipv4 10 0 0 1) 1000), (PUNCH_PONG, V4 (Ipv4 10 0 0 1) 1000)]" and
        r_b = "Ended (Some (V4 (Ipv4 10 0 0 1) 1000))"])
     (simp_all add: confirm_round_trip_def one_second_before_def PUNCH_PING_def PUNCH_PONG_def
        PUNCH_MAGIC_def)

end
