(* ===== verification/Data.thy ===== *)
theory Data
  imports Text "HOL-Library.Finite_Map"
begin

text \<open>
  The crate's data: JSON values (\<open>serde_json::Value\<close>), the shared model of \<open>model.rs\<close>, the
  signalling messages of \<open>signal.rs\<close>, the transports of \<open>transport/mod.rs\<close> and the UI
  events of \<open>events.rs\<close>. Field names carry a prefix where several structs share one.
\<close>

section \<open>JSON values\<close>

text \<open>A number is kept as \<open>serde_json\<close> keeps it; a float is its 64 bits.\<close>

datatype json_number = PosInt u64 | NegInt u64 | Float u64

datatype json =
    JNull
  | JBool bool
  | JNum json_number
  | JStr string
  | JArr "json list"
  | JObj "(string, json) fmap"

definition obj :: "(string \<times> json) list \<Rightarrow> json" where
  "obj kvs = JObj (fmap_of_list kvs)"

fun jget :: "json \<Rightarrow> string \<Rightarrow> json option" where
  "jget (JObj m) k = fmlookup m k"
| "jget _ k = None"

fun as_str :: "json \<Rightarrow> string option" where
  "as_str (JStr s) = Some s"
| "as_str _ = None"

fun as_array :: "json \<Rightarrow> json list option" where
  "as_array (JArr xs) = Some xs"
| "as_array _ = None"

text \<open>\<open>json!\<close> of an \<open>Option<&str>\<close> and of a \<open>Vec<String>\<close>.\<close>

definition json_opt :: "string option \<Rightarrow> json" where
  "json_opt s = (case s of None \<Rightarrow> JNull | Some t \<Rightarrow> JStr t)"

definition json_strs :: "string list \<Rightarrow> json" where
  "json_strs ss = JArr (map JStr ss)"

lemma jget_obj [simp]: "jget (obj kvs) k = map_of kvs k"
  by (simp add: obj_def fmlookup_of_list)

lemma as_str_json_opt [simp]: "as_str (json_opt s) = s"
  by (simp add: json_opt_def split: option.split)

section \<open>Model\<close>

record identity =
  i_node_id :: string
  i_name :: string
  i_ip :: string
  i_tcp_port :: u16
  i_udp_port :: u16
  i_ws_port :: u16

record beacon =
  b_node_id :: string
  b_name :: string
  b_tcp_port :: u16
  b_udp_port :: u16
  b_ws_port :: u16
  b_reply :: bool

datatype source = Registry | Lan | Manual

record peer =
  p_node_id :: string
  p_name :: string
  p_ip :: string
  p_tcp_port :: u16
  p_udp_port :: u16
  p_ws_port :: u16
  p_source :: source
  p_ws_open :: bool
  p_inbound_blocked :: bool
  p_reflexive_ip :: "string option"
  p_reflexive_udp_port :: "u16 option"

record plaintext =
  pt_from :: string
  pt_text :: string

record envelope =
  e_nonce :: string
  e_ciphertext :: string

record incoming_message =
  m_from :: string
  m_ip :: string
  m_protocol :: string
  m_text :: string
  m_ts :: u64
  m_ok :: bool

datatype ws_frame = Hello string string | Msg string string

section \<open>Registry and platform\<close>

record token_resp =
  tr_token :: string
  tr_username :: string

record registry_device =
  d_node_id :: string
  d_name :: string
  d_ip :: string
  d_tcp_port :: u16
  d_udp_port :: u16
  d_ws_port :: u16
  d_ws_open :: bool
  d_inbound_blocked :: bool
  d_reflexive_ip :: "string option"
  d_reflexive_udp_port :: "u16 option"

record probe_result =
  tcp_reachable :: bool
  ws_reachable :: bool
  udp_reachable :: bool

datatype iface_mode = All "ipv4 list" | Single ipv4

text \<open>
  A \<open>ureq\<close> call as data: the request, and what it returns. \<open>HttpOk\<close> carries the body of a
  success, \<open>HttpStatus\<close> an error status with its body, \<open>HttpTransport\<close> the text of any other
  error.
\<close>

datatype http_method = Get | Post

record http_request =
  h_method :: http_method
  h_url :: string
  h_timeout :: nat
  h_auth :: "string option"
  h_body :: "json option"

datatype http_reply = HttpOk string | HttpStatus u16 string | HttpTransport string

section \<open>Signalling\<close>

record candidate =
  c_ip :: string
  c_port :: u16
  c_kind :: string

datatype signal =
    StartWs string
  | WsReady string string u16
  | WsUnavailable string string
  | PunchOffer string "candidate list" u64
  | PunchAnswer string "candidate list" u64
  | PunchReady string
  | PunchFailed string string
  | RelayOffer string string string string
  | RelayAnswer string
  | SdpOffer string string
  | SdpAnswer string string
  | Bye string

section \<open>Live links and events\<close>

datatype transport_kind = Ws | Udp | Punch | WebRtc

record p2p_conn =
  l_kind :: transport_kind
  l_last_seen :: u64
  l_addr :: "sock_addr option"

datatype core_event =
    PeersUpdated "peer list"
  | MessageReceived incoming_message
  | WsConnected string
  | WsDisconnected string
  | PeerConnected string transport_kind
  | PeerDisconnected string
  | ConnectProgress string string "string option"
  | ClipboardEvent string string string string
  | NotificationEvent string string string "string option"
  | CallNotificationEvent string string "string option" string
  | CallHistoryEvent string json
  | AppsList string json json

end
