(* ===== verification/World.thy ===== *)
theory World
  imports Data
begin

text \<open>
  The state the engine's threads share (\<open>engine.rs\<close>, \<open>NetCtx\<close> and \<open>Engine\<close>), and the
  environment it runs in. Every \<open>Arc<Mutex<_>>\<close> of the code is a field of \<open>net\<close>. An
  operation takes the state and returns the new one. What it does to the outside is
  appended to \<open>out\<close>.
\<close>

section \<open>Effects\<close>

datatype io_op =
    TcpConnect sock_addr
  | TcpWrite sock_addr bytes
  | TcpShutdown sock_addr
  | UdpBind
  | UdpSend sock_addr bytes
  | SetBroadcast

text \<open>
  Observable effects, in order: an event for the UI, a socket operation with its outcome,
  an HTTP request with its reply, and writes to the platform.
\<close>

datatype effect =
    Emit core_event
  | Io io_op "string option"
  | Http http_request http_reply
  | ClipSet string
  | NotifierPost string string
  | KvSet string string

section \<open>State\<close>

text \<open>The handlers a control registry can hold, by the type that implements the trait.\<close>

datatype handler =
    ClipboardHandler
  | NotificationHandler
  | CallNotificationHandler
  | CallHistoryHandler
  | NotifAppsHandler
  | P2pPingHandler

datatype chan_msg = StrMsg string | CandMsg "candidate list"

text \<open>
  \<open>chans\<close> holds the queue of every \<open>mpsc\<close> channel whose receiver is alive; a sender is the
  channel's number, and sending to a channel without a receiver fails. \<open>ws_seq\<close>,
  \<open>punch_seq\<close> and \<open>rtc_seq\<close> are the three static connection counters. \<open>tick\<close> counts the
  questions asked of the environment so far.
\<close>

record net =
  identity :: identity
  key :: "bytes option"
  peers :: "(string, peer) hmap"
  ws_conns :: "(string, u64 \<times> nat) hmap"
  p2p_conns :: "(string, p2p_conn) hmap"
  punch_waiters :: "(string, nat) hmap"
  rtc_waiters :: "(string, nat) hmap"
  clip_active :: bool
  clip_last :: string
  clip_pending :: "(string, nat) hmap"
  control :: "(string, handler) hmap"
  installed_apps :: string
  subs :: "(string, string list) hmap"
  directed_transport :: string
  server_url :: "string option"
  token :: "string option"
  username :: "string option"
  chans :: "(nat, chan_msg list) hmap"
  next_chan :: nat
  ws_seq :: u64
  punch_seq :: u64
  rtc_seq :: u64
  tick :: nat
  out :: "effect list"

section \<open>Environment\<close>

text \<open>
  The code the crate calls and does not contain, and the machine it runs on. Pure
  third-party routines are functions. What the outside answers is a function of the number
  of questions asked before (\<open>tick\<close>), so nothing is assumed about it, and a theorem about
  all environments covers every sequence of answers.
\<close>

record env =
  \<comment> \<open>argon2: \<open>hash_password_into\<close> with a 32-byte output\<close>
  argon2 :: "bytes \<Rightarrow> bytes \<Rightarrow> bytes option"
  \<comment> \<open>chacha20poly1305: \<open>encrypt\<close> and \<open>decrypt\<close> with key, nonce and text\<close>
  aead_encrypt :: "bytes \<Rightarrow> bytes \<Rightarrow> bytes \<Rightarrow> bytes option"
  aead_decrypt :: "bytes \<Rightarrow> bytes \<Rightarrow> bytes \<Rightarrow> bytes option"
  \<comment> \<open>base64: the \<open>STANDARD\<close> engine\<close>
  b64_encode :: "bytes \<Rightarrow> string"
  b64_decode :: "string \<Rightarrow> bytes option"
  \<comment> \<open>serde_json\<close>
  json_to_string :: "json \<Rightarrow> string"
  json_from_str :: "string \<Rightarrow> json option"
  plaintext_to_vec :: "plaintext \<Rightarrow> string + bytes"
  plaintext_from_slice :: "bytes \<Rightarrow> plaintext option"
  envelope_to_vec :: "envelope \<Rightarrow> string + bytes"
  envelope_from_slice :: "bytes \<Rightarrow> envelope option"
  frame_to_string :: "ws_frame \<Rightarrow> string + string"
  frame_from_str :: "string \<Rightarrow> ws_frame option"
  beacon_to_vec :: "beacon \<Rightarrow> bytes option"
  beacon_from_slice :: "bytes \<Rightarrow> beacon option"
  signal_to_value :: "signal \<Rightarrow> string + json"
  signal_from_str :: "string \<Rightarrow> signal option"
  \<comment> \<open>the clock, in seconds, the random generator, UUIDs and the sockets\<close>
  now_secs :: "nat \<Rightarrow> u64"
  os_rng :: "nat \<Rightarrow> nat \<Rightarrow> bytes"
  new_uuid :: "nat \<Rightarrow> string"
  io_result :: "nat \<Rightarrow> io_op \<Rightarrow> string option"
  \<comment> \<open>the platform's traits\<close>
  has_clipboard :: bool
  clipboard_get :: "nat \<Rightarrow> string option"
  has_notifier :: bool
  local_ip :: "nat \<Rightarrow> string"
  kv_get :: "string \<Rightarrow> string option"
  fcm_token :: "nat \<Rightarrow> string option"
  platform_kind :: string
  iface_mode :: "nat \<Rightarrow> iface_mode"
  device_id :: string
  device_name :: string
  \<comment> \<open>ureq, and serde_json on the bodies it returns\<close>
  http :: "nat \<Rightarrow> http_request \<Rightarrow> http_reply"
  token_from_body :: "string \<Rightarrow> string + token_resp"
  devices_from_body :: "string \<Rightarrow> string + registry_device list"
  probe_from_body :: "string \<Rightarrow> string + probe_result"

section \<open>Primitive operations\<close>

definition emit :: "core_event \<Rightarrow> net \<Rightarrow> net" where
  "emit ev n = n\<lparr>out := out n @ [Emit ev]\<rparr>"

definition effect :: "effect \<Rightarrow> net \<Rightarrow> net" where
  "effect x n = n\<lparr>out := out n @ [x]\<rparr>"

definition advance :: "net \<Rightarrow> net" where
  "advance n = n\<lparr>tick := Suc (tick n)\<rparr>"

definition read_clock :: "env \<Rightarrow> net \<Rightarrow> u64 \<times> net" where
  "read_clock e n = (now_secs e (tick n), advance n)"

definition draw_bytes :: "env \<Rightarrow> nat \<Rightarrow> net \<Rightarrow> bytes \<times> net" where
  "draw_bytes e len n = (os_rng e (tick n) len, advance n)"

definition perform :: "env \<Rightarrow> io_op \<Rightarrow> net \<Rightarrow> string option \<times> net" where
  "perform e op n =
     (let r = io_result e (tick n) op in (r, effect (Io op r) (advance n)))"

definition http_call :: "env \<Rightarrow> http_request \<Rightarrow> net \<Rightarrow> http_reply \<times> net" where
  "http_call e q n = (let r = http e (tick n) q in (r, effect (Http q r) (advance n)))"

definition read_clipboard :: "env \<Rightarrow> net \<Rightarrow> string option \<times> net" where
  "read_clipboard e n =
     (if has_clipboard e then (clipboard_get e (tick n), advance n) else (None, n))"

text \<open>\<open>mpsc::channel()\<close>, \<open>Sender::send\<close> and the drop of a receiver.\<close>

definition new_channel :: "net \<Rightarrow> nat \<times> net" where
  "new_channel n =
     (let c = next_chan n in (c, n\<lparr>next_chan := Suc c, chans := hm_insert c [] (chans n)\<rparr>))"

definition chan_send :: "nat \<Rightarrow> chan_msg \<Rightarrow> net \<Rightarrow> bool \<times> net" where
  "chan_send c msg n =
     (case hm_get (chans n) c of
        None \<Rightarrow> (False, n)
      | Some q \<Rightarrow> (True, n\<lparr>chans := hm_insert c (q @ [msg]) (chans n)\<rparr>))"

text \<open>\<open>Receiver::try_recv\<close> on a queue whose sender is still held somewhere.\<close>

definition try_recv :: "nat \<Rightarrow> net \<Rightarrow> chan_msg option \<times> net" where
  "try_recv c n =
     (case hm_get (chans n) c of
        Some (m # q) \<Rightarrow> (Some m, n\<lparr>chans := hm_insert c q (chans n)\<rparr>)
      | _ \<Rightarrow> (None, n))"

definition chan_drop :: "nat \<Rightarrow> net \<Rightarrow> net" where
  "chan_drop c n = n\<lparr>chans := hm_remove c (chans n)\<rparr>"

definition str_bytes :: "string \<Rightarrow> bytes" where
  "str_bytes s = map (\<lambda>c. of_nat (of_char c)) s"

text \<open>The text whose UTF-8 bytes are given.\<close>

definition bytes_text :: "bytes \<Rightarrow> string" where
  "bytes_text bs = map (\<lambda>b. char_of (unat b)) bs"

lemma str_bytes_text [simp]: "str_bytes (bytes_text bs) = bs"
proof -
  have "of_nat (unat (b :: u8) mod 256) = b" for b
    using unat_u8_less [of b] by simp
  then show ?thesis by (simp add: str_bytes_def bytes_text_def map_idI)
qed

lemma bytes_text_str [simp]: "bytes_text (str_bytes s) = s"
proof -
  have "char_of (unat (of_nat (of_char c) :: u8)) = c" for c
  proof -
    have "(of_char c :: nat) < 256" by (metis char_of_nat nat_of_char_less_256)
    then show ?thesis by (simp add: unat_of_nat)
  qed
  then show ?thesis by (simp add: str_bytes_def bytes_text_def map_idI)
qed

lemma length_str_bytes [simp]: "length (str_bytes s) = length s"
  by (simp add: str_bytes_def)

named_theorems world_simps \<comment> \<open>unfolds the primitive operations\<close>

lemmas [world_simps] = emit_def effect_def advance_def read_clock_def draw_bytes_def perform_def
  read_clipboard_def http_call_def Let_def

end
