(* ===== verification/Live.thy ===== *)
theory Live
  imports World
begin

text \<open>
  The registry of live links (\<open>transport/mod.rs\<close>: \<open>mark_live\<close>, \<open>touch_live\<close>, \<open>drop_live\<close> and
  the snapshots), the single source of truth for who is connected, and its contract
  with the UI: the connection events emitted so far always rebuild the registry.
\<close>

definition mark_live :: "env \<Rightarrow> string \<Rightarrow> transport_kind \<Rightarrow> sock_addr option \<Rightarrow> net \<Rightarrow> net" where
  "mark_live e node_id kind addr n =
     (let (now, n) = read_clock e n in
      case hm_get (p2p_conns n) node_id of
        Some c \<Rightarrow>
          n\<lparr>p2p_conns := hm_insert node_id
             (c\<lparr>l_last_seen := now, l_addr := (if addr \<noteq> None then addr else l_addr c)\<rparr>)
             (p2p_conns n)\<rparr>
      | None \<Rightarrow>
          emit (PeerConnected node_id kind)
            (n\<lparr>p2p_conns := hm_insert node_id
               \<lparr>l_kind = kind, l_last_seen = now, l_addr = addr\<rparr> (p2p_conns n)\<rparr>))"

definition touch_live :: "env \<Rightarrow> string \<Rightarrow> net \<Rightarrow> net" where
  "touch_live e node_id n =
     (case hm_get (p2p_conns n) node_id of
        Some c \<Rightarrow>
          (let (now, n) = read_clock e n in
           n\<lparr>p2p_conns := hm_insert node_id (c\<lparr>l_last_seen := now\<rparr>) (p2p_conns n)\<rparr>)
      | None \<Rightarrow> n)"

definition drop_live :: "string \<Rightarrow> net \<Rightarrow> net" where
  "drop_live node_id n =
     (let removed = hm_contains (p2p_conns n) node_id;
          n = n\<lparr>p2p_conns := hm_remove node_id (p2p_conns n)\<rparr>
      in if removed then emit (PeerDisconnected node_id) n else n)"

definition live_peers :: "net \<Rightarrow> (string \<times> transport_kind \<times> sock_addr option) list" where
  "live_peers n = map (\<lambda>(k, v). (k, l_kind v, l_addr v)) (p2p_conns n)"

definition live_snapshot :: "net \<Rightarrow> (string \<times> transport_kind \<times> u64) list" where
  "live_snapshot n = map (\<lambda>(k, v). (k, l_kind v, l_last_seen v)) (p2p_conns n)"

section \<open>The UI's view\<close>

text \<open>
  A UI that follows \<open>PeerConnected\<close> and \<open>PeerDisconnected\<close>. It accepts a connection only of a
  peer it shows as disconnected, and a disconnection only of one it shows as connected:
  \<open>None\<close> is a stream of events that breaks this.
\<close>

type_synonym view = "string \<Rightarrow> transport_kind option"

fun ui_step :: "view \<Rightarrow> effect \<Rightarrow> view option" where
  "ui_step v (Emit (PeerConnected k t)) = (if v k = None then Some (v(k \<mapsto> t)) else None)"
| "ui_step v (Emit (PeerDisconnected k)) = (if v k = None then None else Some (v(k := None)))"
| "ui_step v _ = Some v"

fun ui_run :: "view \<Rightarrow> effect list \<Rightarrow> view option" where
  "ui_run v [] = Some v"
| "ui_run v (x # xs) = (case ui_step v x of None \<Rightarrow> None | Some v' \<Rightarrow> ui_run v' xs)"

definition live_view :: "net \<Rightarrow> view" where
  "live_view n = (\<lambda>k. map_option l_kind (hm_get (p2p_conns n) k))"

definition dots_ok :: "net \<Rightarrow> bool" where
  "dots_ok n = (ui_run (\<lambda>_. None) (out n) = Some (live_view n) \<and> hm_ok (p2p_conns n))"

fun dot_event :: "effect \<Rightarrow> bool" where
  "dot_event (Emit (PeerConnected k t)) = True"
| "dot_event (Emit (PeerDisconnected k)) = True"
| "dot_event _ = False"

lemma ui_run_append:
  "ui_run v (xs @ ys) = (case ui_run v xs of None \<Rightarrow> None | Some v' \<Rightarrow> ui_run v' ys)"
  by (induction xs arbitrary: v) (auto split: option.split)

lemma ui_step_other: "\<not> dot_event x \<Longrightarrow> ui_step v x = Some v"
  by (cases "(v, x)" rule: ui_step.cases) auto

lemma ui_run_other: "\<forall>x \<in> set xs. \<not> dot_event x \<Longrightarrow> ui_run v xs = Some v"
  by (induction xs) (simp_all add: ui_step_other)

section \<open>Operations that leave the registry alone\<close>

text \<open>\<open>calm n n'\<close>: from \<open>n\<close> to \<open>n'\<close> the registry is untouched and no connection event is emitted.\<close>

definition calm :: "net \<Rightarrow> net \<Rightarrow> bool" where
  "calm n n' = (p2p_conns n' = p2p_conns n \<and>
     (\<exists>xs. out n' = out n @ xs \<and> (\<forall>x \<in> set xs. \<not> dot_event x)))"

lemma calm_refl [simp, intro]: "calm n n"
  by (simp add: calm_def)

lemma calm_trans: "calm n n' \<Longrightarrow> calm n' n'' \<Longrightarrow> calm n n''"
  by (fastforce simp: calm_def)

lemma calm_out: "p2p_conns n' = p2p_conns n \<Longrightarrow> out n' = out n \<Longrightarrow> calm n n'"
  by (simp add: calm_def)

lemma calm_effect: "\<not> dot_event x \<Longrightarrow> calm n (effect x n)"
  by (simp add: calm_def effect_def)

lemma calm_emit: "\<not> dot_event (Emit ev) \<Longrightarrow> calm n (emit ev n)"
  by (simp add: calm_def emit_def)

lemma calm_dots: "calm n n' \<Longrightarrow> dots_ok n \<Longrightarrow> dots_ok n'"
  by (auto simp: calm_def dots_ok_def live_view_def ui_run_append ui_run_other)

section \<open>Every operation keeps the contract\<close>

lemma dots_ok_mark_live: "dots_ok n \<Longrightarrow> dots_ok (mark_live e k t a n)"
proof (cases "hm_get (p2p_conns n) k")
  case None
  assume ok: "dots_ok n"
  have v: "live_view n k = None" using None by (simp add: live_view_def)
  show ?thesis
    using ok v None
    by (auto simp: mark_live_def world_simps dots_ok_def ui_run_append live_view_def fun_eq_iff)
next
  case (Some c)
  assume ok: "dots_ok n"
  then show ?thesis
    using Some by (auto simp: mark_live_def world_simps dots_ok_def live_view_def fun_eq_iff)
qed

lemma dots_ok_touch_live: "dots_ok n \<Longrightarrow> dots_ok (touch_live e k n)"
  by (auto simp: touch_live_def world_simps dots_ok_def live_view_def fun_eq_iff split: option.splits)

lemma dots_ok_drop_live: "dots_ok n \<Longrightarrow> dots_ok (drop_live k n)"
  by (auto simp: drop_live_def world_simps dots_ok_def live_view_def fun_eq_iff hm_contains_def
      ui_run_append split: option.splits)

text \<open>The registry after each operation.\<close>

lemma mark_live_get:
  "hm_get (p2p_conns (mark_live e k t a n)) j =
     (if j = k then
        (case hm_get (p2p_conns n) k of
           Some c \<Rightarrow> Some (c\<lparr>l_last_seen := now_secs e (tick n), l_addr := (if a \<noteq> None then a else l_addr c)\<rparr>)
         | None \<Rightarrow> Some \<lparr>l_kind = t, l_last_seen = now_secs e (tick n), l_addr = a\<rparr>)
      else hm_get (p2p_conns n) j)"
  by (auto simp: mark_live_def world_simps split: option.splits)

lemma touch_live_get:
  "hm_get (p2p_conns (touch_live e k n)) j =
     (if j = k then map_option (l_last_seen_update (\<lambda>_. now_secs e (tick n))) (hm_get (p2p_conns n) k)
      else hm_get (p2p_conns n) j)"
  by (auto simp: touch_live_def world_simps split: option.splits)

lemma drop_live_get:
  "hm_get (p2p_conns (drop_live k n)) j = (if j = k then None else hm_get (p2p_conns n) j)"
  by (auto simp: drop_live_def world_simps)

end
