(* ===== verification/Crypto.thy ===== *)
theory Crypto
  imports World
begin

text \<open>
  End-to-end encryption (\<open>crypto.rs\<close>): the passphrase becomes a key, and a key seals a
  plaintext into an envelope of two base64 fields. Argon2, XChaCha20-Poly1305 and base64
  are fields of the environment; \<open>sealing_lib\<close> names what a round trip relies on.
\<close>

definition derive_key :: "env \<Rightarrow> string \<Rightarrow> string \<Rightarrow> bytes option" where
  "derive_key e passphrase name =
     (let salt = ''my-domain-e2ee:'' @ name
      in argon2 e (str_bytes passphrase) (str_bytes salt))"

definition encrypt :: "env \<Rightarrow> bytes \<Rightarrow> bytes \<Rightarrow> net \<Rightarrow> envelope option \<times> net" where
  "encrypt e k plaintext n =
     (if length k \<noteq> 32 then (None, n)
      else let (nonce, n) = draw_bytes e 24 n in
        case aead_encrypt e k nonce plaintext of
          None \<Rightarrow> (None, n)
        | Some ct \<Rightarrow> (Some \<lparr>e_nonce = b64_encode e nonce, e_ciphertext = b64_encode e ct\<rparr>, n))"

definition decrypt :: "env \<Rightarrow> bytes \<Rightarrow> envelope \<Rightarrow> bytes option" where
  "decrypt e k env =
     (if length k \<noteq> 32 then None
      else case b64_decode e (e_nonce env) of
        None \<Rightarrow> None
      | Some nonce \<Rightarrow>
          if length nonce \<noteq> 24 then None
          else case b64_decode e (e_ciphertext env) of
            None \<Rightarrow> None
          | Some ct \<Rightarrow> aead_decrypt e k nonce ct)"

definition generate_key :: "env \<Rightarrow> net \<Rightarrow> string \<times> net" where
  "generate_key e n = (let (bs, n) = draw_bytes e 24 n in (b64_encode e bs, n))"

text \<open>
  What the crate relies on: the random generator fills the buffer it is given, base64
  decodes what it encoded, and the cipher opens what it sealed with the same key and nonce.
\<close>

definition sealing_lib :: "env \<Rightarrow> bool" where
  "sealing_lib e = ((\<forall>t len. length (os_rng e t len) = len) \<and>
     (\<forall>bs. b64_decode e (b64_encode e bs) = Some bs) \<and>
     (\<forall>k nonce pt ct. aead_encrypt e k nonce pt = Some ct \<longrightarrow> aead_decrypt e k nonce ct = Some pt))"

lemma decrypt_encrypt:
  assumes "sealing_lib e" "encrypt e k pt n = (Some env, n')"
  shows "decrypt e k env = Some pt"
  using assms
  by (auto simp: sealing_lib_def encrypt_def decrypt_def draw_bytes_def split: if_splits option.splits)

text \<open>The nonce an envelope carries is the draw made at that moment; nothing else is used.\<close>

lemma encrypt_nonce:
  assumes "sealing_lib e" "encrypt e k pt n = (Some env, n')"
  shows "b64_decode e (e_nonce env) = Some (os_rng e (tick n) 24)"
  using assms
  by (auto simp: sealing_lib_def encrypt_def draw_bytes_def split: if_splits option.splits)

lemma encrypt_state: "snd (encrypt e k pt n) = (if length k \<noteq> 32 then n else advance n)"
  by (simp add: encrypt_def draw_bytes_def split: option.split)

lemma encrypt_None_iff:
  "fst (encrypt e k pt n) = None \<longleftrightarrow>
     length k \<noteq> 32 \<or> aead_encrypt e k (os_rng e (tick n) 24) pt = None"
  by (auto simp: encrypt_def draw_bytes_def split: option.split)

lemma decrypt_nonce_length:
  "decrypt e k env = Some pt \<Longrightarrow> \<exists>nonce. b64_decode e (e_nonce env) = Some nonce \<and> length nonce = 24"
  by (auto simp: decrypt_def split: if_splits option.splits)

end
