(* ===== verification/Send.thy ===== *)
theory Send
  imports Crypto Live
begin

text \<open>
  The outgoing path (\<open>transport/mod.rs\<close>: \<open>best_proto\<close>, \<open>clip_proto\<close>, \<open>send_payload\<close>,
  \<open>send_control_to\<close>, \<open>broadcast_control\<close>). A persistent link (WebSocket, punched or
  WebRTC) is a sender in \<open>ws_conns\<close>; the others are one TCP stream or one UDP datagram.
\<close>

section \<open>Choice of the transport\<close>

definition best_proto :: "(string, u64 \<times> nat) hmap \<Rightarrow> string \<Rightarrow> string \<Rightarrow> string" where
  "best_proto conns directed node_id =
     (if hm_contains conns node_id then ''WS''
      else if eq_ignore_ascii_case (trim directed) ''tcp'' then ''TCP''
      else ''UDP'')"

definition clip_proto :: "net \<Rightarrow> string \<Rightarrow> string" where
  "clip_proto n node_id = best_proto (ws_conns n) (directed_transport n) node_id"

text \<open>
  \<open>str::to_uppercase\<close>. Of the characters outside ASCII only U+017F has the image of an
  ASCII letter that the protocol names contain; the others are left as they are, which
  shows only in the text of the error for an unknown protocol.
\<close>

fun to_uppercase :: "string \<Rightarrow> string" where
  "to_uppercase [] = []"
| "to_uppercase [c] = [ascii_upper c]"
| "to_uppercase (c # d # s) =
     (if [c, d] = bytes_str [0xC5, 0xBF] then CHR ''S'' # to_uppercase s
      else ascii_upper c # to_uppercase (d # s))"

declare to_uppercase.simps [simp del]

section \<open>Sending\<close>

definition no_ws_error :: string where
  "no_ws_error = ''no WebSocket connection '' @ bytes_str [0xE2, 0x80, 0x94] @
     '' trigger 'Connect (WS)' first''"

definition send_tcp :: "env \<Rightarrow> sock_addr \<Rightarrow> bytes \<Rightarrow> net \<Rightarrow> (string + unit) \<times> net" where
  "send_tcp e addr body n =
     (case perform e (TcpConnect addr) n of
        (Some err, n) \<Rightarrow> (Inl (''TCP connect failed: '' @ err), n)
      | (None, n) \<Rightarrow>
          (case perform e (TcpWrite addr body) n of
             (Some err, n) \<Rightarrow> (Inl (''TCP send failed: '' @ err), n)
           | (None, n) \<Rightarrow>
               (case perform e (TcpShutdown addr) n of
                  (Some err, n) \<Rightarrow> (Inl err, n)
                | (None, n) \<Rightarrow> (Inr (), n))))"

definition send_udp :: "env \<Rightarrow> sock_addr \<Rightarrow> bytes \<Rightarrow> net \<Rightarrow> (string + unit) \<times> net" where
  "send_udp e addr body n =
     (case perform e UdpBind n of
        (Some err, n) \<Rightarrow> (Inl err, n)
      | (None, n) \<Rightarrow>
          (case perform e (UdpSend addr body) n of
             (Some err, n) \<Rightarrow> (Inl (''UDP send failed: '' @ err), n)
           | (None, n) \<Rightarrow> (Inr (), n)))"

definition send_ws :: "env \<Rightarrow> string \<Rightarrow> envelope \<Rightarrow> net \<Rightarrow> (string + unit) \<times> net" where
  "send_ws e node_id env n =
     (case frame_to_string e (Msg (e_nonce env) (e_ciphertext env)) of
        Inl err \<Rightarrow> (Inl err, n)
      | Inr frame \<Rightarrow>
          (case hm_get (ws_conns n) node_id of
             None \<Rightarrow> (Inl no_ws_error, n)
           | Some (_, s) \<Rightarrow>
               (case chan_send s (StrMsg frame) n of
                  (False, n) \<Rightarrow> (Inl ''WebSocket connection closed'', n)
                | (True, n) \<Rightarrow> (Inr (), n))))"

definition send_direct :: "env \<Rightarrow> string \<Rightarrow> string \<Rightarrow> bytes \<Rightarrow> net \<Rightarrow> (string + unit) \<times> net" where
  "send_direct e node_id proto body n =
     (case hm_get (peers n) node_id of
        None \<Rightarrow> (Inl ''peer not found'', n)
      | Some p \<Rightarrow>
          (case parse_ipv4 (p_ip p) of
             None \<Rightarrow> (Inl ''bad peer ip'', n)
           | Some ip \<Rightarrow>
               if proto = ''TCP'' then send_tcp e (V4 ip (p_tcp_port p)) body n
               else if proto = ''UDP'' then send_udp e (V4 ip (p_udp_port p)) body n
               else (Inl (''unknown protocol: '' @ proto), n)))"

definition send_payload ::
  "env \<Rightarrow> string \<Rightarrow> string \<Rightarrow> string \<Rightarrow> string \<Rightarrow> net \<Rightarrow> (string + unit) \<times> net" where
  "send_payload e sender node_id protocol text n =
     (case key n of
        None \<Rightarrow> (Inl ''set your encryption key first'', n)
      | Some k \<Rightarrow>
          (case plaintext_to_vec e \<lparr>pt_from = sender, pt_text = text\<rparr> of
             Inl err \<Rightarrow> (Inl err, n)
           | Inr plaintext \<Rightarrow>
               (case encrypt e k plaintext n of
                  (None, n) \<Rightarrow> (Inl ''encryption failed'', n)
                | (Some env, n) \<Rightarrow>
                    (case envelope_to_vec e env of
                       Inl err \<Rightarrow> (Inl err, n)
                     | Inr body \<Rightarrow>
                         (let proto = to_uppercase protocol in
                          if proto = ''WS'' then send_ws e node_id env n
                          else send_direct e node_id proto body n)))))"

definition send_control_to :: "env \<Rightarrow> string \<Rightarrow> string \<Rightarrow> net \<Rightarrow> net" where
  "send_control_to e node_id text n =
     (let sender = i_name (identity n);
          proto = clip_proto n node_id
      in snd (send_payload e sender node_id proto text n))"

definition broadcast_control :: "env \<Rightarrow> string \<Rightarrow> net \<Rightarrow> net" where
  "broadcast_control e text n =
     foldl (\<lambda>n node_id. send_control_to e node_id text n) n (hm_keys (peers n))"

section \<open>What sending changes\<close>

text \<open>
  \<open>traffic n n'\<close>: from \<open>n\<close> to \<open>n'\<close> only queues and sockets were used. The shared state
  (keys, peers, links, settings) is the same, and every effect is a socket operation or an
  HTTP request.
\<close>

fun is_io :: "effect \<Rightarrow> bool" where
  "is_io (Io op r) = True"
| "is_io (Http q r) = True"
| "is_io _ = False"

definition traffic :: "net \<Rightarrow> net \<Rightarrow> bool" where
  "traffic n n' = (n' = n\<lparr>chans := chans n', tick := tick n', out := out n'\<rparr> \<and>
     hm_keys (chans n') = hm_keys (chans n) \<and>
     (\<exists>xs. out n' = out n @ xs \<and> list_all is_io xs))"

lemma traffic_refl [simp, intro]: "traffic n n"
  by (simp add: traffic_def)

lemma traffic_trans:
  assumes "traffic n n'" "traffic n' n''"
  shows "traffic n n''"
proof -
  have "n'' = n\<lparr>chans := chans n'', tick := tick n'', out := out n''\<rparr>"
    using assms unfolding traffic_def by (cases n; cases n'; cases n'') simp
  then show ?thesis using assms by (fastforce simp: traffic_def)
qed

lemma traffic_fields:
  assumes "traffic n n'"
  shows "identity n' = identity n" "key n' = key n" "peers n' = peers n"
    "ws_conns n' = ws_conns n" "p2p_conns n' = p2p_conns n" "subs n' = subs n"
    "clip_active n' = clip_active n" "clip_last n' = clip_last n"
    "clip_pending n' = clip_pending n" "control n' = control n"
    "installed_apps n' = installed_apps n" "directed_transport n' = directed_transport n"
    "punch_waiters n' = punch_waiters n" "rtc_waiters n' = rtc_waiters n"
    "server_url n' = server_url n" "token n' = token n" "username n' = username n"
    "next_chan n' = next_chan n" "ws_seq n' = ws_seq n" "punch_seq n' = punch_seq n"
    "rtc_seq n' = rtc_seq n"
  using assms unfolding traffic_def by (cases n; cases n'; simp)+

lemma is_io_not_dot: "is_io x \<Longrightarrow> \<not> dot_event x"
  by (cases x) auto

lemma traffic_calm: "traffic n n' \<Longrightarrow> calm n n'"
  by (auto simp: traffic_fields calm_def) (auto simp: traffic_def list_all_iff is_io_not_dot)

lemma traffic_dots: "traffic n n' \<Longrightarrow> dots_ok n \<Longrightarrow> dots_ok n'"
  by (rule calm_dots [OF traffic_calm])

lemma traffic_advance [simp]: "traffic n (advance n)"
  by (simp add: traffic_def advance_def)

lemma traffic_perform: "traffic n (snd (perform e op n))"
  by (simp add: traffic_def world_simps)

lemma perform_traffic: "perform e op n = (r, n') \<Longrightarrow> traffic n n'"
  by (metis snd_conv traffic_perform)

lemma hm_keys_insert_old: "hm_get m k = Some v \<Longrightarrow> hm_keys (hm_insert k w m) = hm_keys m"
  by (metis domI hm_insert_def hm_keys_def hm_keys_dom update_keys)

lemma chan_send_traffic: "chan_send c m n = (b, n') \<Longrightarrow> traffic n n'"
  by (auto simp: chan_send_def traffic_def hm_keys_insert_old split: option.splits)

lemma encrypt_traffic: "encrypt e k pt n = (r, n') \<Longrightarrow> traffic n n'"
  by (metis encrypt_state snd_conv traffic_advance traffic_refl)

lemma send_tcp_traffic: "traffic n (snd (send_tcp e a body n))"
  by (auto simp: send_tcp_def split: prod.splits option.splits
      dest!: perform_traffic intro: traffic_trans)

lemma send_udp_traffic: "traffic n (snd (send_udp e a body n))"
  by (auto simp: send_udp_def split: prod.splits option.splits
      dest!: perform_traffic intro: traffic_trans)

lemma send_ws_traffic: "traffic n (snd (send_ws e k env n))"
  by (auto simp: send_ws_def split: sum.splits prod.splits option.splits bool.splits
      dest: chan_send_traffic)

lemma send_direct_traffic: "traffic n (snd (send_direct e k p body n))"
  by (auto simp: send_direct_def send_tcp_traffic send_udp_traffic split: option.splits)

lemma send_payload_traffic: "traffic n (snd (send_payload e s k p t n))"
proof (cases "\<exists>key' plaintext env n1 body. key n = Some key' \<and>
    plaintext_to_vec e \<lparr>pt_from = s, pt_text = t\<rparr> = Inr plaintext \<and>
    encrypt e key' plaintext n = (Some env, n1) \<and> envelope_to_vec e env = Inr body")
  case True
  then obtain key' plaintext env n1 body where *: "key n = Some key'"
    "plaintext_to_vec e \<lparr>pt_from = s, pt_text = t\<rparr> = Inr plaintext"
    "encrypt e key' plaintext n = (Some env, n1)" "envelope_to_vec e env = Inr body"
    by blast
  have "traffic n1 (snd (send_ws e k env n1))" "\<And>q. traffic n1 (snd (send_direct e k q body n1))"
    by (rule send_ws_traffic, rule send_direct_traffic)
  then show ?thesis
    using encrypt_traffic [OF *(3)]
    by (auto simp: send_payload_def * Let_def intro: traffic_trans)
next
  case False
  then show ?thesis
    by (auto simp: send_payload_def split: option.splits sum.splits prod.splits dest: encrypt_traffic)
qed

lemma send_control_to_traffic: "traffic n (send_control_to e k t n)"
  by (simp add: send_control_to_def send_payload_traffic)

lemma foldl_traffic: "(\<And>x n. traffic n (f n x)) \<Longrightarrow> traffic n (foldl f n xs)"
  by (induction xs arbitrary: n) (auto intro: traffic_trans)

lemma broadcast_control_traffic: "traffic n (broadcast_control e t n)"
  by (simp add: broadcast_control_def foldl_traffic send_control_to_traffic)

section \<open>What leaves is sealed\<close>

text \<open>
  \<open>sealed_as e k t env\<close>: \<open>env\<close> is \<open>encrypt\<close>'s result for the text \<open>t\<close> (from some sender) under
  \<open>k\<close>. \<open>sealed_growth e t n n'\<close>: from \<open>n\<close> to \<open>n'\<close> every byte given to a socket is such an
  envelope, and every frame put into a queue carries one.
\<close>

definition sealed_as :: "env \<Rightarrow> bytes option \<Rightarrow> string \<Rightarrow> envelope \<Rightarrow> bool" where
  "sealed_as e k t env = (\<exists>k' s pt m. k = Some k' \<and>
     plaintext_to_vec e \<lparr>pt_from = s, pt_text = t\<rparr> = Inr pt \<and> fst (encrypt e k' pt m) = Some env)"

fun sealed_effect :: "env \<Rightarrow> bytes option \<Rightarrow> string \<Rightarrow> effect \<Rightarrow> bool" where
  "sealed_effect e k t (Io (TcpWrite a b) r) = (\<exists>env. sealed_as e k t env \<and> envelope_to_vec e env = Inr b)"
| "sealed_effect e k t (Io (UdpSend a b) r) = (\<exists>env. sealed_as e k t env \<and> envelope_to_vec e env = Inr b)"
| "sealed_effect e k t (Io op r) = True"
| "sealed_effect e k t x = False"

definition sealed_frame :: "env \<Rightarrow> bytes option \<Rightarrow> string \<Rightarrow> string \<Rightarrow> bool" where
  "sealed_frame e k t f = (\<exists>env. sealed_as e k t env \<and>
     frame_to_string e (Msg (e_nonce env) (e_ciphertext env)) = Inr f)"

definition sealed_growth :: "env \<Rightarrow> string \<Rightarrow> net \<Rightarrow> net \<Rightarrow> bool" where
  "sealed_growth e t n n' =
     ((\<exists>xs. out n' = out n @ xs \<and> list_all (sealed_effect e (key n) t) xs) \<and>
      (\<forall>c. \<exists>fs. hm_get (chans n') c = map_option (\<lambda>q. q @ map StrMsg fs) (hm_get (chans n) c) \<and>
        list_all (sealed_frame e (key n) t) fs))"

lemma sealed_growthI:
  assumes "out n' = out n @ xs" "list_all (sealed_effect e (key n) t) xs" "chans n' = chans n"
  shows "sealed_growth e t n n'"
  using assms unfolding sealed_growth_def
  by (auto intro!: exI [of _ "[]"] simp: option.map_ident)

lemma sealed_growth_refl [simp, intro]: "sealed_growth e t n n"
  by (rule sealed_growthI [of _ _ "[]"]) simp_all

lemma sealed_growth_trans:
  assumes "sealed_growth e t n n'" "sealed_growth e t n' n''" "key n' = key n"
  shows "sealed_growth e t n n''"
proof -
  have "\<exists>fs. hm_get (chans n'') c = map_option (\<lambda>q. q @ map StrMsg fs) (hm_get (chans n) c) \<and>
      list_all (sealed_frame e (key n) t) fs" for c
  proof -
    obtain fs gs where fs: "hm_get (chans n') c = map_option (\<lambda>q. q @ map StrMsg fs) (hm_get (chans n) c)"
      "list_all (sealed_frame e (key n) t) fs"
      and gs: "hm_get (chans n'') c = map_option (\<lambda>q. q @ map StrMsg gs) (hm_get (chans n') c)"
      "list_all (sealed_frame e (key n) t) gs"
      using assms unfolding sealed_growth_def by metis
    show ?thesis
      by (rule exI [of _ "fs @ gs"]) (simp add: fs gs option.map_comp comp_def)
  qed
  moreover have "\<exists>xs. out n'' = out n @ xs \<and> list_all (sealed_effect e (key n) t) xs"
    using assms by (auto simp: sealed_growth_def list_all_append)
  ultimately show ?thesis unfolding sealed_growth_def by blast
qed

lemma perform_fields:
  "perform e op n = (r, n') \<Longrightarrow> out n' = out n @ [Io op r] \<and> chans n' = chans n \<and> key n' = key n"
  by (auto simp: world_simps)

lemma send_tcp_sealed:
  assumes "sealed_as e (key n) t env" "envelope_to_vec e env = Inr body"
  shows "sealed_growth e t n (snd (send_tcp e a body n))"
  unfolding send_tcp_def
  by (auto split: prod.splits option.splits dest!: perform_fields intro!: sealed_growthI)
    (use assms in auto)

lemma send_udp_sealed:
  assumes "sealed_as e (key n) t env" "envelope_to_vec e env = Inr body"
  shows "sealed_growth e t n (snd (send_udp e a body n))"
  unfolding send_udp_def
  by (auto split: prod.splits option.splits dest!: perform_fields intro!: sealed_growthI)
    (use assms in auto)

lemma chan_send_sealed:
  assumes "sealed_frame e (key n) t f"
  shows "sealed_growth e t n (snd (chan_send c (StrMsg f) n))"
proof (cases "hm_get (chans n) c")
  case (Some q)
  have "\<exists>fs. hm_get (chans (snd (chan_send c (StrMsg f) n))) d =
      map_option (\<lambda>q. q @ map StrMsg fs) (hm_get (chans n) d) \<and>
      list_all (sealed_frame e (key n) t) fs" for d
    using assms Some
    by (cases "d = c") (auto simp: chan_send_def option.map_ident
        intro: exI [of _ "[f]"] exI [of _ "[]"])
  moreover have "out (snd (chan_send c (StrMsg f) n)) = out n" by (simp add: chan_send_def Some)
  ultimately show ?thesis by (simp add: sealed_growth_def)
qed (simp add: chan_send_def)

lemma send_ws_sealed:
  assumes "sealed_as e (key n) t env"
  shows "sealed_growth e t n (snd (send_ws e k env n))"
  using assms chan_send_sealed [of e n t]
  by (auto simp: send_ws_def sealed_frame_def split: sum.splits option.splits prod.splits bool.splits)
    (metis snd_conv)+

lemma send_direct_sealed:
  assumes "sealed_as e (key n) t env" "envelope_to_vec e env = Inr body"
  shows "sealed_growth e t n (snd (send_direct e k p body n))"
  using send_tcp_sealed [OF assms] send_udp_sealed [OF assms]
  by (auto simp: send_direct_def split: option.splits)

lemma encrypt_sealed: "encrypt e k pt n = (r, n') \<Longrightarrow> sealed_growth e t n n'"
  using encrypt_state [of e k pt n]
  by (auto intro: sealed_growthI [of _ _ "[]"] simp: advance_def split: if_splits)

lemma send_payload_sealed_growth: "sealed_growth e t n (snd (send_payload e s k p t n))"
proof (cases "\<exists>key' plaintext env n1 body. key n = Some key' \<and>
    plaintext_to_vec e \<lparr>pt_from = s, pt_text = t\<rparr> = Inr plaintext \<and>
    encrypt e key' plaintext n = (Some env, n1) \<and> envelope_to_vec e env = Inr body")
  case True
  then obtain key' plaintext env n1 body where *: "key n = Some key'"
    "plaintext_to_vec e \<lparr>pt_from = s, pt_text = t\<rparr> = Inr plaintext"
    "encrypt e key' plaintext n = (Some env, n1)" "envelope_to_vec e env = Inr body"
    by blast
  have k1: "key n1 = key n" using traffic_fields [OF encrypt_traffic [OF *(3)]] by simp
  have s: "sealed_as e (key n1) t env"
    using * k1 unfolding sealed_as_def by (metis fst_conv)
  have "sealed_growth e t n1 (snd (send_ws e k env n1))"
    "\<And>q. sealed_growth e t n1 (snd (send_direct e k q body n1))"
    using send_ws_sealed [OF s] send_direct_sealed [OF s *(4)] by blast+
  then show ?thesis
    using sealed_growth_trans [OF encrypt_sealed [OF *(3)] _ k1]
    by (simp add: send_payload_def * Let_def)
next
  case False
  then show ?thesis
    by (auto simp: send_payload_def split: option.splits sum.splits prod.splits intro: encrypt_sealed)
qed

lemma send_control_to_sealed: "sealed_growth e t n (send_control_to e k t n)"
  by (simp add: send_control_to_def send_payload_sealed_growth)

lemma foldl_sealed:
  "sealed_growth e t n (foldl (\<lambda>n k. send_control_to e k t n) n ks)"
proof (induction ks arbitrary: n)
  case (Cons k ks)
  show ?case
    using sealed_growth_trans [OF send_control_to_sealed Cons] traffic_fields [OF send_control_to_traffic]
    by simp
qed simp

text \<open>Nothing leaves the device in the clear. Whatever a broadcast does, over any mix of
  transports and with any socket and serialisation failures, each payload handed to a
  socket and each frame put into a link's queue is the authenticated encryption of the
  broadcast text under this device's key, no other queue content changes, and with no key
  set nothing happens at all.\<close>

theorem broadcast_leaves_sealed:
  "sealed_growth e text n (broadcast_control e text n) \<and>
   (if key n = None then broadcast_control e text n = n else True)"
proof -
  have "foldl (\<lambda>n k. send_control_to e k text n) n ks = n" if "key n = None" for ks
    using that by (induction ks) (simp_all add: send_control_to_def send_payload_def)
  then show ?thesis by (simp add: broadcast_control_def foldl_sealed)
qed

section \<open>Routing\<close>

text \<open>The socket operations a direct send to \<open>p\<close> may perform.\<close>

definition aimed_at :: "peer \<Rightarrow> string \<Rightarrow> effect \<Rightarrow> bool" where
  "aimed_at p proto x = (\<exists>ip r. parse_ipv4 (p_ip p) = Some ip \<and>
     (if proto = ''TCP'' then
        (let a = V4 ip (p_tcp_port p) in x = Io (TcpConnect a) r \<or> x = Io (TcpShutdown a) r \<or>
          (\<exists>b. x = Io (TcpWrite a b) r))
      else x = Io UdpBind r \<or> (\<exists>b. x = Io (UdpSend (V4 ip (p_udp_port p)) b) r)))"

lemma send_direct_aimed:
  assumes "proto = ''TCP'' \<or> proto = ''UDP''"
  shows "chans (snd (send_direct e k proto b n)) = chans n \<and>
    (\<exists>xs. out (snd (send_direct e k proto b n)) = out n @ xs \<and>
      (case hm_get (peers n) k of None \<Rightarrow> xs = [] | Some p \<Rightarrow> list_all (aimed_at p proto) xs))"
  using assms
  by (elim disjE)
    (auto simp: send_direct_def send_tcp_def send_udp_def aimed_at_def Let_def
      split: option.splits prod.splits dest!: perform_fields)

lemma encrypt_keeps:
  assumes "encrypt e k pt n = (r, n')"
  shows "out n' = out n" "chans n' = chans n" "peers n' = peers n" "ws_conns n' = ws_conns n"
  using encrypt_state [of e k pt n] assms by (auto simp: advance_def split: if_splits)

lemma send_ws_queue:
  "out (snd (send_ws e k env n)) = out n \<and>
   (\<forall>c. hm_get (chans (snd (send_ws e k env n))) c = hm_get (chans n) c \<or>
     map_option snd (hm_get (ws_conns n) k) = Some c)"
  by (auto simp: send_ws_def chan_send_def split: sum.splits option.splits prod.splits bool.splits)

lemma proto_upper:
  "to_uppercase ''WS'' = ''WS''" "to_uppercase ''TCP'' = ''TCP''" "to_uppercase ''UDP'' = ''UDP''"
  by code_simp+


end
