(* ===== verification/Features.thy ===== *)
theory Features
  imports Send
begin

text \<open>
  Control messages (\<open>features/\<close>): a JSON object with a \<open>type\<close> tag inside the encrypted
  text, dispatched through a registry keyed by the tag to one of six handlers. The locale
  \<open>control_handler\<close> is the contract a handler has with the engine; it is interpreted for
  every handler and then for the dispatch itself.
\<close>

section \<open>The message and its accessors\<close>

record control_msg =
  cm_from :: string
  cm_ip :: string
  cm_protocol :: string
  cm_value :: json

definition json_str_at :: "json \<Rightarrow> string \<Rightarrow> string option" where
  "json_str_at v k = (case jget v k of None \<Rightarrow> None | Some x \<Rightarrow> as_str x)"

definition unwrap_or :: "'a \<Rightarrow> 'a option \<Rightarrow> 'a" where
  "unwrap_or d x = (case x of None \<Rightarrow> d | Some y \<Rightarrow> y)"

lemma unwrap_or_simps [simp]: "unwrap_or d None = d" "unwrap_or d (Some y) = y"
  by (simp_all add: unwrap_or_def)

definition msg_kind :: "control_msg \<Rightarrow> string" where
  "msg_kind msg = unwrap_or '''' (json_str_at (cm_value msg) ''type'')"

definition msg_str :: "control_msg \<Rightarrow> string \<Rightarrow> string" where
  "msg_str msg k = unwrap_or '''' (json_str_at (cm_value msg) k)"

definition msg_opt :: "control_msg \<Rightarrow> string \<Rightarrow> string option" where
  "msg_opt msg k = json_str_at (cm_value msg) k"

definition msg_json :: "control_msg \<Rightarrow> string \<Rightarrow> json" where
  "msg_json msg k = unwrap_or JNull (jget (cm_value msg) k)"

section \<open>Handlers\<close>

definition clipboard_handle :: "env \<Rightarrow> control_msg \<Rightarrow> net \<Rightarrow> net" where
  "clipboard_handle e msg n =
     (if msg_kind msg = ''clipboard'' then
        (if clip_active n \<and> has_clipboard e then
           (let c = msg_str msg ''content'';
                n = n\<lparr>clip_last := c\<rparr>;
                n = effect (ClipSet c) n
            in emit (ClipboardEvent (cm_from msg) (cm_ip msg) (cm_protocol msg) ''synced'') n)
         else n)
      else if msg_kind msg = ''clipboard_request'' then
        (let requester = msg_str msg ''from'' in
         if requester \<noteq> [] then
           (let me = i_node_id (identity n);
                (cur, n) = read_clipboard e n;
                current = unwrap_or '''' cur;
                resp = json_to_string e (obj [(''type'', JStr ''clipboard_response''),
                  (''content'', JStr current), (''from'', JStr me)])
            in send_control_to e requester resp n)
         else n)
      else if msg_kind msg = ''clipboard_response'' then
        (let who = msg_str msg ''from'' in
         case hm_get (clip_pending n) who of
           Some tx \<Rightarrow>
             snd (chan_send tx (StrMsg (msg_str msg ''content''))
               (n\<lparr>clip_pending := hm_remove who (clip_pending n)\<rparr>))
         | None \<Rightarrow> n)
      else n)"

definition notification_handle :: "env \<Rightarrow> control_msg \<Rightarrow> net \<Rightarrow> net" where
  "notification_handle e msg n =
     (let n = (if has_notifier e
               then effect (NotifierPost (msg_str msg ''title'') (msg_str msg ''body'')) n else n)
      in emit (NotificationEvent (msg_str msg ''from'') (msg_str msg ''title'')
           (msg_str msg ''body'') (msg_opt msg ''app'')) n)"

definition call_notification_handle :: "env \<Rightarrow> control_msg \<Rightarrow> net \<Rightarrow> net" where
  "call_notification_handle e msg n =
     emit (CallNotificationEvent (msg_str msg ''from'') (msg_str msg ''caller'')
       (msg_opt msg ''number'') (msg_str msg ''state'')) n"

definition call_history_handle :: "env \<Rightarrow> control_msg \<Rightarrow> net \<Rightarrow> net" where
  "call_history_handle e msg n =
     emit (CallHistoryEvent (msg_str msg ''from'') (msg_json msg ''entries'')) n"

definition json_str_list :: "json \<Rightarrow> string list" where
  "json_str_list v = (case as_array v of None \<Rightarrow> [] | Some xs \<Rightarrow> List.map_filter as_str xs)"

definition notif_apps_handle :: "env \<Rightarrow> control_msg \<Rightarrow> net \<Rightarrow> net" where
  "notif_apps_handle e msg n =
     (let who = msg_str msg ''from'' in
      if msg_kind msg = ''apps_request'' then
        (if who = [] then n
         else let me = i_node_id (identity n);
                  apps = unwrap_or (JArr []) (json_from_str e (installed_apps n));
                  subscribed = unwrap_or [] (hm_get (subs n) who);
                  reply = json_to_string e (obj [(''type'', JStr ''apps_list''),
                    (''from'', JStr me), (''apps'', apps), (''subscribed'', json_strs subscribed)])
              in send_control_to e who reply n)
      else if msg_kind msg = ''subscribe_apps'' then
        (if who = [] then n
         else n\<lparr>subs := hm_insert who (json_str_list (msg_json msg ''apps'')) (subs n)\<rparr>)
      else if msg_kind msg = ''apps_list'' then
        emit (AppsList who (msg_json msg ''apps'') (msg_json msg ''subscribed'')) n
      else n)"

definition p2p_ping_handle :: "env \<Rightarrow> control_msg \<Rightarrow> net \<Rightarrow> net" where
  "p2p_ping_handle e msg n =
     (let who = msg_str msg ''from'' in
      if who = [] then n
      else
        let n = mark_live e who Udp None n in
        if msg_kind msg = ''p2p_ping'' then
          (let me = i_node_id (identity n);
               pong = json_to_string e (obj [(''type'', JStr ''p2p_pong''), (''from'', JStr me)])
           in send_control_to e who pong n)
        else n)"

section \<open>The registry\<close>

fun handler_kinds :: "handler \<Rightarrow> string list" where
  "handler_kinds ClipboardHandler = [''clipboard'', ''clipboard_request'', ''clipboard_response'']"
| "handler_kinds NotificationHandler = [''notification'']"
| "handler_kinds CallNotificationHandler = [''call_notification'']"
| "handler_kinds CallHistoryHandler = [''call_history'']"
| "handler_kinds NotifAppsHandler = [''apps_request'', ''subscribe_apps'', ''apps_list'']"
| "handler_kinds P2pPingHandler = [''p2p_ping'', ''p2p_pong'']"

fun handler_handle :: "handler \<Rightarrow> env \<Rightarrow> control_msg \<Rightarrow> net \<Rightarrow> net" where
  "handler_handle ClipboardHandler = clipboard_handle"
| "handler_handle NotificationHandler = notification_handle"
| "handler_handle CallNotificationHandler = call_notification_handle"
| "handler_handle CallHistoryHandler = call_history_handle"
| "handler_handle NotifAppsHandler = notif_apps_handle"
| "handler_handle P2pPingHandler = p2p_ping_handle"

definition register :: "handler \<Rightarrow> (string, handler) hmap \<Rightarrow> (string, handler) hmap" where
  "register h r = foldl (\<lambda>r kind. hm_insert kind h r) r (handler_kinds h)"

definition with_defaults :: "bool \<Rightarrow> (string, handler) hmap" where
  "with_defaults clipboard =
     (let r = [];
          r = (if clipboard then register ClipboardHandler r else r);
          r = register NotificationHandler r;
          r = register CallNotificationHandler r;
          r = register CallHistoryHandler r;
          r = register NotifAppsHandler r
      in register P2pPingHandler r)"

definition dispatch ::
  "env \<Rightarrow> string \<Rightarrow> string \<Rightarrow> string \<Rightarrow> string \<Rightarrow> net \<Rightarrow> bool \<times> net" where
  "dispatch e sender ip protocol text n =
     (case json_from_str e text of
        None \<Rightarrow> (False, n)
      | Some v \<Rightarrow>
          (case json_str_at v ''type'' of
             None \<Rightarrow> (False, n)
           | Some kind \<Rightarrow>
               (case hm_get (control n) kind of
                  None \<Rightarrow> (False, n)
                | Some h \<Rightarrow>
                    (True, handler_handle h e
                       \<lparr>cm_from = sender, cm_ip = ip, cm_protocol = protocol, cm_value = v\<rparr> n))))"

section \<open>The contract of a handler\<close>

text \<open>
  \<open>guarded n n'\<close>: the state a control message must not touch. Who this device is, its key,
  its session, the peers it knows, its persistent links, the registry itself, its settings
  and the negotiations in flight are the same.
\<close>

definition guarded :: "net \<Rightarrow> net \<Rightarrow> bool" where
  "guarded n n' =
     (identity n' = identity n \<and> key n' = key n \<and> peers n' = peers n \<and> ws_conns n' = ws_conns n \<and>
      directed_transport n' = directed_transport n \<and> server_url n' = server_url n \<and>
      token n' = token n \<and> username n' = username n \<and> control n' = control n \<and>
      clip_active n' = clip_active n \<and> installed_apps n' = installed_apps n \<and>
      punch_waiters n' = punch_waiters n \<and> rtc_waiters n' = rtc_waiters n \<and>
      next_chan n' = next_chan n \<and> hm_keys (chans n') = hm_keys (chans n) \<and>
      ws_seq n' = ws_seq n \<and> punch_seq n' = punch_seq n \<and> rtc_seq n' = rtc_seq n)"

text \<open>Chat messages and connection progress are not for a control handler to report.\<close>

fun reserved_event :: "effect \<Rightarrow> bool" where
  "reserved_event (Emit (MessageReceived m)) = True"
| "reserved_event (Emit (ConnectProgress k s d)) = True"
| "reserved_event _ = False"

definition unreserved :: "net \<Rightarrow> net \<Rightarrow> bool" where
  "unreserved n n' = (\<exists>xs. out n' = out n @ xs \<and> list_all (\<lambda>x. \<not> reserved_event x) xs)"

lemma guarded_refl [simp, intro]: "guarded n n"
  by (simp add: guarded_def)

lemma guarded_trans: "guarded n n' \<Longrightarrow> guarded n' n'' \<Longrightarrow> guarded n n''"
  by (simp add: guarded_def)

lemma unreserved_refl [simp, intro]: "unreserved n n"
  by (simp add: unreserved_def)

lemma unreserved_trans: "unreserved n n' \<Longrightarrow> unreserved n' n'' \<Longrightarrow> unreserved n n''"
  by (fastforce simp: unreserved_def)

lemma traffic_guarded: "traffic n n' \<Longrightarrow> guarded n n'"
  by (simp add: guarded_def traffic_fields) (simp add: traffic_def)

lemma is_io_not_reserved: "is_io x \<Longrightarrow> \<not> reserved_event x"
  by (cases x) auto

lemma traffic_unreserved: "traffic n n' \<Longrightarrow> unreserved n n'"
  by (auto simp: traffic_def unreserved_def list_all_iff is_io_not_reserved)

lemma mark_live_contract: "unreserved n (mark_live e k t a n)" "guarded n (mark_live e k t a n)"
  by (auto simp: mark_live_def world_simps unreserved_def guarded_def split: option.splits)

lemma emit_contract:
  "calm n m \<Longrightarrow> \<not> dot_event (Emit ev) \<Longrightarrow> calm n (emit ev m)"
  "guarded n m \<Longrightarrow> guarded n (emit ev m)"
  "unreserved n m \<Longrightarrow> \<not> reserved_event (Emit ev) \<Longrightarrow> unreserved n (emit ev m)"
  by (auto intro: calm_trans calm_emit) (auto simp: guarded_def unreserved_def emit_def)

lemma effect_contract:
  "calm n m \<Longrightarrow> \<not> dot_event x \<Longrightarrow> calm n (effect x m)"
  "guarded n m \<Longrightarrow> guarded n (effect x m)"
  "unreserved n m \<Longrightarrow> \<not> reserved_event x \<Longrightarrow> unreserved n (effect x m)"
  by (auto intro: calm_trans calm_effect) (auto simp: guarded_def unreserved_def effect_def)

locale control_handler =
  fixes handle :: "env \<Rightarrow> control_msg \<Rightarrow> net \<Rightarrow> net"
  assumes handle_dots: "dots_ok n \<Longrightarrow> dots_ok (handle e msg n)"
    and handle_guarded: "guarded n (handle e msg n)"
    and handle_unreserved: "unreserved n (handle e msg n)"
begin

lemma handle_key: "key (handle e msg n) = key n"
  using handle_guarded [of n e msg] by (simp add: guarded_def)

lemma handle_control: "control (handle e msg n) = control n"
  using handle_guarded [of n e msg] by (simp add: guarded_def)

lemma run_guarded: "guarded n (foldl (\<lambda>n msg. handle e msg n) n msgs)"
  by (induction msgs arbitrary: n) (auto intro: guarded_trans handle_guarded)

end

lemma read_clipboard_traffic: "traffic n (snd (read_clipboard e n))"
  by (simp add: read_clipboard_def)

lemma snd_read_clipboard: "read_clipboard e n = (r, n') \<Longrightarrow> traffic n n'"
  by (metis read_clipboard_traffic snd_conv)

lemma clip_resp_calm:
  "p2p_conns (snd (chan_send c m n)) = p2p_conns n" "out (snd (chan_send c m n)) = out n"
  "guarded n (snd (chan_send c m n))"
  by (auto simp: chan_send_def guarded_def hm_keys_insert_old split: option.splits)

interpretation clipboard: control_handler clipboard_handle
proof (unfold_locales, goal_cases)
  case (1 n e msg)
  show ?case
  proof (rule calm_dots [OF _ 1])
    have "calm n (send_control_to e k t n')" if "traffic n n'" for k t n'
      by (rule traffic_calm [OF traffic_trans [OF that send_control_to_traffic]])
    moreover have "calm n (snd (chan_send c m (n\<lparr>clip_pending := x\<rparr>)))" for c m x
      by (rule calm_out) (simp_all add: clip_resp_calm)
    moreover have "calm n (emit (ClipboardEvent a b c d) (effect (ClipSet t) (n\<lparr>clip_last := t\<rparr>)))"
      for a b c d t by (simp add: calm_def world_simps)
    ultimately show "calm n (clipboard_handle e msg n)"
      using snd_read_clipboard [of e n]
      by (auto simp: clipboard_handle_def Let_def split: option.splits prod.splits)
  qed
next
  case (2 n e msg)
  have "guarded n (send_control_to e k t n')" if "traffic n n'" for k t n'
    by (rule traffic_guarded [OF traffic_trans [OF that send_control_to_traffic]])
  moreover have "guarded n (snd (chan_send c m (n\<lparr>clip_pending := x\<rparr>)))" for c m x
    by (rule guarded_trans [OF _ clip_resp_calm(3)]) (simp add: guarded_def)
  moreover have "guarded n (emit ev (effect x (n\<lparr>clip_last := t\<rparr>)))" for ev x t
    by (simp add: guarded_def world_simps)
  ultimately show ?case
    using snd_read_clipboard [of e n]
    by (auto simp: clipboard_handle_def Let_def split: option.splits prod.splits)
next
  case (3 n e msg)
  have "unreserved n (send_control_to e k t n')" if "traffic n n'" for k t n'
    by (rule traffic_unreserved [OF traffic_trans [OF that send_control_to_traffic]])
  moreover have "unreserved n (snd (chan_send c m (n\<lparr>clip_pending := x\<rparr>)))" for c m x
    by (simp add: unreserved_def clip_resp_calm)
  moreover have "unreserved n (emit (ClipboardEvent a b c d) (effect (ClipSet t) (n\<lparr>clip_last := t\<rparr>)))"
    for a b c d t by (simp add: unreserved_def world_simps)
  ultimately show ?case
    using snd_read_clipboard [of e n]
    by (auto simp: clipboard_handle_def Let_def split: option.splits prod.splits)
qed

interpretation notification: control_handler notification_handle
proof unfold_locales
  fix n e msg
  show "dots_ok n \<Longrightarrow> dots_ok (notification_handle e msg n)"
    by (erule calm_dots [rotated])
      (simp add: notification_handle_def Let_def emit_contract effect_contract)
qed (simp_all add: notification_handle_def Let_def emit_contract effect_contract)

interpretation call_notification: control_handler call_notification_handle
proof unfold_locales
  fix n e msg
  show "dots_ok n \<Longrightarrow> dots_ok (call_notification_handle e msg n)"
    by (erule calm_dots [rotated])
      (simp add: call_notification_handle_def Let_def emit_contract effect_contract)
qed (simp_all add: call_notification_handle_def Let_def emit_contract effect_contract)

interpretation call_history: control_handler call_history_handle
proof unfold_locales
  fix n e msg
  show "dots_ok n \<Longrightarrow> dots_ok (call_history_handle e msg n)"
    by (erule calm_dots [rotated])
      (simp add: call_history_handle_def Let_def emit_contract effect_contract)
qed (simp_all add: call_history_handle_def Let_def emit_contract effect_contract)

interpretation notif_apps: control_handler notif_apps_handle
proof (unfold_locales, goal_cases)
  case (1 n e msg)
  have "dots_ok (n\<lparr>subs := x\<rparr>)" for x
    by (rule calm_dots [OF _ 1]) (simp add: calm_def)
  moreover have "dots_ok (emit (AppsList a b c) n)" for a b c
    by (rule calm_dots [OF calm_emit 1]) simp
  ultimately show ?case
    using 1 traffic_dots [OF send_control_to_traffic]
    by (auto simp: notif_apps_handle_def Let_def)
next
  case (2 n e msg)
  then show ?case
    using traffic_guarded [OF send_control_to_traffic]
    by (auto simp: notif_apps_handle_def Let_def) (auto simp: guarded_def emit_def)
next
  case (3 n e msg)
  then show ?case
    using traffic_unreserved [OF send_control_to_traffic]
    by (auto simp: notif_apps_handle_def Let_def) (auto simp: unreserved_def emit_def)
qed

interpretation p2p_ping: control_handler p2p_ping_handle
proof (unfold_locales, goal_cases)
  case (1 n e msg)
  then show ?case
    by (auto simp: p2p_ping_handle_def Let_def
        intro!: dots_ok_mark_live traffic_dots [OF send_control_to_traffic])
next
  case (2 n e msg)
  show ?case
    by (auto simp: p2p_ping_handle_def Let_def mark_live_contract
        intro!: guarded_trans [OF mark_live_contract(2) traffic_guarded [OF send_control_to_traffic]])
next
  case (3 n e msg)
  show ?case
    by (auto simp: p2p_ping_handle_def Let_def mark_live_contract
        intro!: unreserved_trans [OF mark_live_contract(1) traffic_unreserved [OF send_control_to_traffic]])
qed

text \<open>Every handler of the registry meets the contract, so a dispatch does.\<close>

interpretation any_handler: control_handler "handler_handle h" for h
proof unfold_locales
  fix n :: net and e msg
  show "dots_ok n \<Longrightarrow> dots_ok (handler_handle h e msg n)"
    by (cases h) (simp_all add: clipboard.handle_dots notification.handle_dots
        call_notification.handle_dots call_history.handle_dots notif_apps.handle_dots
        p2p_ping.handle_dots)
  show "guarded n (handler_handle h e msg n)"
    by (cases h) (simp_all add: clipboard.handle_guarded notification.handle_guarded
        call_notification.handle_guarded call_history.handle_guarded notif_apps.handle_guarded
        p2p_ping.handle_guarded)
  show "unreserved n (handler_handle h e msg n)"
    by (cases h) (simp_all add: clipboard.handle_unreserved notification.handle_unreserved
        call_notification.handle_unreserved call_history.handle_unreserved notif_apps.handle_unreserved
        p2p_ping.handle_unreserved)
qed

lemma dispatch_cases:
  "(dispatch e s ip p t n = (False, n)) \<or>
   (\<exists>h msg. dispatch e s ip p t n = (True, handler_handle h e msg n))"
  by (auto simp: dispatch_def split: option.splits)

lemma dispatch_guarded: "guarded n (snd (dispatch e s ip p t n))"
  using dispatch_cases [of e s ip p t n] any_handler.handle_guarded by auto

lemma dispatch_unreserved: "unreserved n (snd (dispatch e s ip p t n))"
  using dispatch_cases [of e s ip p t n] any_handler.handle_unreserved by auto

section \<open>The default registry\<close>

text \<open>Which handler the default registry gives a tag.\<close>

definition default_handler :: "bool \<Rightarrow> string \<Rightarrow> handler option" where
  "default_handler clipboard kind =
     (if kind \<in> {''clipboard'', ''clipboard_request'', ''clipboard_response''}
        then (if clipboard then Some ClipboardHandler else None)
      else if kind = ''notification'' then Some NotificationHandler
      else if kind = ''call_notification'' then Some CallNotificationHandler
      else if kind = ''call_history'' then Some CallHistoryHandler
      else if kind \<in> {''apps_request'', ''subscribe_apps'', ''apps_list''} then Some NotifAppsHandler
      else if kind \<in> {''p2p_ping'', ''p2p_pong''} then Some P2pPingHandler
      else None)"

lemma with_defaults_get: "hm_get (with_defaults c) kind = default_handler c kind"
  unfolding with_defaults_def register_def Let_def
  by (cases c) (simp_all add: default_handler_def)

end
