(* ===== verification/Receive.thy ===== *)
theory Receive
  imports Features
begin

text \<open>
  The incoming path (\<open>transport/mod.rs\<close>: \<open>envelope_to_message\<close>, \<open>handle_incoming\<close> and the
  bodies of \<open>tcp_recv_loop\<close> and \<open>udp_recv_loop\<close>), and what it delivers of what \<open>send_payload\<close> sent.
\<close>

definition undecryptable_text :: string where
  "undecryptable_text = bytes_str [0xF0, 0x9F, 0x94, 0x92] @
     '' message could not be decrypted (wrong encryption key)''"

definition opened :: "env \<Rightarrow> bytes option \<Rightarrow> envelope \<Rightarrow> bytes option" where
  "opened e k env = (case k of None \<Rightarrow> None | Some k \<Rightarrow> decrypt e k env)"

definition envelope_to_message ::
  "env \<Rightarrow> envelope \<Rightarrow> string \<Rightarrow> string \<Rightarrow> net \<Rightarrow> incoming_message \<times> net" where
  "envelope_to_message e env ip protocol n =
     (let readable = (case opened e (key n) env of None \<Rightarrow> None | Some pt \<Rightarrow> plaintext_from_slice e pt);
          (now, n) = read_clock e n
      in case readable of
           Some msg \<Rightarrow> (\<lparr>m_from = pt_from msg, m_ip = ip, m_protocol = protocol,
                         m_text = pt_text msg, m_ts = now, m_ok = True\<rparr>, n)
         | None \<Rightarrow> (\<lparr>m_from = ''(unknown)'', m_ip = ip, m_protocol = protocol,
                     m_text = undecryptable_text, m_ts = now, m_ok = False\<rparr>, n))"

definition handle_incoming :: "env \<Rightarrow> envelope \<Rightarrow> string \<Rightarrow> string \<Rightarrow> net \<Rightarrow> net" where
  "handle_incoming e env ip protocol n =
     (case opened e (key n) env of
        None \<Rightarrow>
          (let (m, n) = envelope_to_message e env ip protocol n in emit (MessageReceived m) n)
      | Some pt \<Rightarrow>
          (case plaintext_from_slice e pt of
             None \<Rightarrow> n
           | Some msg \<Rightarrow>
               (case dispatch e (pt_from msg) ip protocol (pt_text msg) n of
                  (True, n) \<Rightarrow> n
                | (False, n) \<Rightarrow>
                    (let (now, n) = read_clock e n in
                     emit (MessageReceived \<lparr>m_from = pt_from msg, m_ip = ip, m_protocol = protocol,
                       m_text = pt_text msg, m_ts = now, m_ok = True\<rparr>) n))))"

text \<open>
  One accepted TCP stream (its peer address, and what \<open>read_to_end\<close> returned) and one
  received datagram (\<open>recv_from\<close>); \<open>None\<close> stands for an I/O error.
\<close>

definition tcp_recv :: "env \<Rightarrow> ipv4 option \<Rightarrow> bytes option \<Rightarrow> net \<Rightarrow> net" where
  "tcp_recv e addr input n =
     (let ip = (case addr of None \<Rightarrow> '''' | Some a \<Rightarrow> show_ipv4 a) in
      case input of
        None \<Rightarrow> n
      | Some buf \<Rightarrow>
          (case envelope_from_slice e buf of
             None \<Rightarrow> n
           | Some env \<Rightarrow> handle_incoming e env ip ''TCP'' n))"

definition udp_recv :: "env \<Rightarrow> (bytes \<times> ipv4) option \<Rightarrow> net \<Rightarrow> net" where
  "udp_recv e received n =
     (case received of
        None \<Rightarrow> n
      | Some (dgram, src) \<Rightarrow>
          (case envelope_from_slice e (take 65535 dgram) of
             None \<Rightarrow> n
           | Some env \<Rightarrow> handle_incoming e env (show_ipv4 src) ''UDP'' n))"

section \<open>Contracts\<close>

lemma handle_incoming_guarded: "guarded n (handle_incoming e env ip p n)"
proof -
  have "guarded n n'" if "dispatch e s ip p t n = (b, n')" for s t b n'
    using dispatch_guarded [of n e s ip p t] that by simp
  moreover have "guarded n (advance n)" by (simp add: guarded_def advance_def)
  ultimately show ?thesis
    using dispatch_cases [of e _ ip p _ n]
    by (auto simp: handle_incoming_def envelope_to_message_def read_clock_def Let_def emit_contract
        split: option.splits prod.splits bool.splits) (metis Pair_inject emit_contract(2))+
qed

lemma tcp_recv_guarded: "guarded n (tcp_recv e a i n)"
  by (simp add: tcp_recv_def Let_def handle_incoming_guarded split: option.split)

lemma udp_recv_guarded: "guarded n (udp_recv e r n)"
  by (simp add: udp_recv_def handle_incoming_guarded split: option.split prod.split)

section \<open>Delivery\<close>

definition chat_of :: "env \<Rightarrow> net \<Rightarrow> string \<Rightarrow> string \<Rightarrow> string \<Rightarrow> string \<Rightarrow> effect" where
  "chat_of e r sender ip protocol text =
     Emit (MessageReceived \<lparr>m_from = sender, m_ip = ip, m_protocol = protocol, m_text = text,
       m_ts = now_secs e (tick r), m_ok = True\<rparr>)"

text \<open>\<open>serde_json\<close> reads back the envelopes and plaintexts it wrote.\<close>

definition serde_lib :: "env \<Rightarrow> bool" where
  "serde_lib e = ((\<forall>env b. envelope_to_vec e env = Inr b \<longrightarrow> envelope_from_slice e b = Some env) \<and>
     (\<forall>pt b. plaintext_to_vec e pt = Inr b \<longrightarrow> plaintext_from_slice e b = Some pt))"

text \<open>What \<open>send_payload\<close> prepared, however it is carried.\<close>

lemma send_payload_sealed:
  assumes "send_payload e s k p t n = (Inr (), n')"
  obtains key' plaintext env n1 body where "key n = Some key'"
    "plaintext_to_vec e \<lparr>pt_from = s, pt_text = t\<rparr> = Inr plaintext"
    "encrypt e key' plaintext n = (Some env, n1)" "envelope_to_vec e env = Inr body"
    "(if to_uppercase p = ''WS'' then send_ws e k env n1
      else send_direct e k (to_uppercase p) body n1) = (Inr (), n')"
  using assms
  by (auto simp: send_payload_def Let_def split: option.splits sum.splits prod.splits)

lemma handle_incoming_opened:
  assumes "opened e (key r) env = Some pt" "plaintext_from_slice e pt = Some msg"
    "\<not> fst (dispatch e (pt_from msg) ip p (pt_text msg) r)"
  shows "handle_incoming e env ip p r =
    effect (chat_of e r (pt_from msg) ip p (pt_text msg)) (advance r)"
proof -
  obtain n' where "dispatch e (pt_from msg) ip p (pt_text msg) r = (False, n')"
    using assms(3) by (metis (full_types) prod.collapse)
  moreover from this have "n' = r"
    using dispatch_cases [of e "pt_from msg" ip p "pt_text msg" r] by auto
  ultimately show ?thesis
    using assms by (simp add: handle_incoming_def read_clock_def chat_of_def emit_def effect_def)
qed

lemma sealed_delivery:
  assumes "sealing_lib e" "serde_lib e" "key r = Some k"
    "plaintext_to_vec e \<lparr>pt_from = s, pt_text = t\<rparr> = Inr plaintext"
    "encrypt e k plaintext n = (Some env, n1)" "\<not> fst (dispatch e s ip p t r)"
  shows "handle_incoming e env ip p r = effect (chat_of e r s ip p t) (advance r)"
proof -
  have "opened e (key r) env = Some plaintext"
    using decrypt_encrypt [OF assms(1,5)] assms(3) by (simp add: opened_def)
  moreover have "plaintext_from_slice e plaintext = Some \<lparr>pt_from = s, pt_text = t\<rparr>"
    using assms(2,4) by (simp add: serde_lib_def)
  ultimately show ?thesis using handle_incoming_opened assms(6) by fastforce
qed

lemma perform_out: "perform e op n = (r, n') \<Longrightarrow> out n' = out n @ [Io op r]"
  by (auto simp: world_simps)

lemma send_udp_out:
  "send_udp e a b n = (Inr (), n') \<Longrightarrow> out n' = out n @ [Io UdpBind None, Io (UdpSend a b) None]"
  by (auto simp: send_udp_def split: prod.splits option.splits dest!: perform_out)

lemma send_tcp_out:
  "send_tcp e a b n = (Inr (), n') \<Longrightarrow>
   out n' = out n @ [Io (TcpConnect a) None, Io (TcpWrite a b) None, Io (TcpShutdown a) None]"
  by (auto simp: send_tcp_def split: prod.splits option.splits dest!: perform_out)

lemma send_direct_target:
  assumes "send_direct e k proto b n = (Inr (), n')"
  obtains p ip where "hm_get (peers n) k = Some p" "parse_ipv4 (p_ip p) = Some ip"
    "(proto = ''TCP'' \<and> send_tcp e (V4 ip (p_tcp_port p)) b n = (Inr (), n')) \<or>
     (proto = ''UDP'' \<and> send_udp e (V4 ip (p_udp_port p)) b n = (Inr (), n'))"
  using assms by (auto simp: send_direct_def split: option.splits if_splits)

end
