(* ===== verification/Sample.thy ===== *)
theory Sample
  imports Receive
begin

text \<open>
  A concrete environment and state, at which the properties with hypotheses are applied.
  The libraries are replaced by small total functions that satisfy the laws the crate relies
  on: base64 is a renaming of bytes as characters, sealing puts key and nonce before the
  text, and a serialised pair of strings is the unary length of the first and both strings.
\<close>

definition pair_bytes :: "string \<Rightarrow> string \<Rightarrow> bytes" where
  "pair_bytes s t = replicate (length s) 1 @ [0] @ str_bytes s @ str_bytes t"

definition bytes_pair :: "bytes \<Rightarrow> (string \<times> string) option" where
  "bytes_pair b =
     (let l = length (takeWhile (\<lambda>x. x = 1) b); rest = drop (Suc l) b in
      if length b \<le> l then None else Some (bytes_text (take l rest), bytes_text (drop l rest)))"

lemma bytes_pair_bytes [simp]: "bytes_pair (pair_bytes s t) = Some (s, t)"
proof -
  have "takeWhile (\<lambda>x. x = 1) (replicate n 1 @ 0 # xs) = replicate n 1" for n and xs :: bytes
    by (induction n) simp_all
  then have "takeWhile (\<lambda>x. x = 1) (pair_bytes s t) = replicate (length s) 1"
    by (simp add: pair_bytes_def)
  moreover have "drop (Suc (length s)) (pair_bytes s t) = str_bytes s @ str_bytes t"
    by (simp add: pair_bytes_def)
  ultimately show ?thesis
    unfolding bytes_pair_def Let_def by (simp add: pair_bytes_def)
qed

definition sample_seal :: "bytes \<Rightarrow> bytes \<Rightarrow> bytes \<Rightarrow> bytes option" where
  "sample_seal k nonce pt = Some (k @ nonce @ pt)"

definition sample_open :: "bytes \<Rightarrow> bytes \<Rightarrow> bytes \<Rightarrow> bytes option" where
  "sample_open k nonce ct =
     (let p = k @ nonce in if take (length p) ct = p then Some (drop (length p) ct) else None)"

definition sample_frame_out :: "ws_frame \<Rightarrow> string + string" where
  "sample_frame_out f = (case f of
     Hello a b \<Rightarrow> Inr (CHR ''H'' # bytes_text (pair_bytes a b))
   | Msg a b \<Rightarrow> Inr (CHR ''M'' # bytes_text (pair_bytes a b)))"

definition sample_frame_in :: "string \<Rightarrow> ws_frame option" where
  "sample_frame_in s = (case s of [] \<Rightarrow> None | c # cs \<Rightarrow>
     (case bytes_pair (str_bytes cs) of None \<Rightarrow> None
      | Some (a, b) \<Rightarrow> if c = CHR ''H'' then Some (Hello a b)
          else if c = CHR ''M'' then Some (Msg a b) else None))"

text \<open>JSON text: enough for messages with a tag and a sender.\<close>

definition sample_json_out :: "json \<Rightarrow> string" where
  "sample_json_out v = CHR ''J'' # bytes_text (pair_bytes
     (unwrap_or '''' (json_str_at v ''type'')) (unwrap_or '''' (json_str_at v ''from'')))"

definition sample_json_in :: "string \<Rightarrow> json option" where
  "sample_json_in s = (case s of [] \<Rightarrow> None | c # cs \<Rightarrow>
     if c = CHR ''J'' then map_option (\<lambda>(k, f). obj [(''type'', JStr k), (''from'', JStr f)])
       (bytes_pair (str_bytes cs))
     else None)"

definition sample_beacon_out :: "beacon \<Rightarrow> bytes" where
  "sample_beacon_out b = be16 (b_tcp_port b) @ be16 (b_udp_port b) @ be16 (b_ws_port b) @
     [if b_reply b then 1 else 0] @ pair_bytes (b_node_id b) (b_name b)"

definition sample_beacon_in :: "bytes \<Rightarrow> beacon option" where
  "sample_beacon_in d =
     (case d of
        t1 # t2 # u1 # u2 # w1 # w2 # r # names \<Rightarrow>
          map_option (\<lambda>(i, nm). \<lparr>b_node_id = i, b_name = nm, b_tcp_port = of_be16 t1 t2,
            b_udp_port = of_be16 u1 u2, b_ws_port = of_be16 w1 w2, b_reply = (r = 1)\<rparr>) (bytes_pair names)
      | _ \<Rightarrow> None)"

lemma sample_beacon [simp]: "sample_beacon_in (sample_beacon_out b) = Some b"
  by (simp add: sample_beacon_in_def sample_beacon_out_def be16_def of_be16_be16)

definition sample_env :: env where
  "sample_env = \<lparr>
     argon2 = (\<lambda>p s. Some (take 32 (p @ s @ replicate 32 0))),
     aead_encrypt = sample_seal, aead_decrypt = sample_open,
     b64_encode = bytes_text, b64_decode = (\<lambda>s. Some (str_bytes s)),
     json_to_string = sample_json_out, json_from_str = sample_json_in,
     plaintext_to_vec = (\<lambda>pt. Inr (pair_bytes (pt_from pt) (pt_text pt))),
     plaintext_from_slice = (\<lambda>b. map_option (\<lambda>(f, t). \<lparr>pt_from = f, pt_text = t\<rparr>) (bytes_pair b)),
     envelope_to_vec = (\<lambda>en. Inr (pair_bytes (e_nonce en) (e_ciphertext en))),
     envelope_from_slice =
       (\<lambda>b. map_option (\<lambda>(f, t). \<lparr>e_nonce = f, e_ciphertext = t\<rparr>) (bytes_pair b)),
     frame_to_string = sample_frame_out, frame_from_str = sample_frame_in,
     beacon_to_vec = (\<lambda>b. Some (sample_beacon_out b)), beacon_from_slice = sample_beacon_in,
     signal_to_value = (\<lambda>s. case s of Bye x \<Rightarrow> Inr (JStr x) | _ \<Rightarrow> Inl ''unsupported''),
     signal_from_str = (\<lambda>s. Some (Bye s)),
     now_secs = of_nat, os_rng = (\<lambda>t len. replicate len (of_nat t)), new_uuid = (\<lambda>_. ''u''),
     io_result = (\<lambda>_ _. None),
     has_clipboard = True, clipboard_get = (\<lambda>_. Some ''clip''), has_notifier = True,
     local_ip = (\<lambda>_. ''10.0.0.2''), kv_get = (\<lambda>_. None), fcm_token = (\<lambda>_. None),
     platform_kind = ''desktop'', iface_mode = (\<lambda>_. Single (Ipv4 10 0 0 2)),
     device_id = ''A'', device_name = ''alice'',
     http = (\<lambda>_ _. HttpOk ''''),
     token_from_body = (\<lambda>_. Inr \<lparr>tr_token = ''t'', tr_username = ''alice''\<rparr>),
     devices_from_body = (\<lambda>_. Inr []),
     probe_from_body = (\<lambda>_. Inr \<lparr>tcp_reachable = True, ws_reachable = False, udp_reachable = False\<rparr>)\<rparr>"

definition sample_key :: bytes where
  "sample_key = replicate 32 7"

definition sample_peer :: peer where
  "sample_peer = \<lparr>p_node_id = ''B'', p_name = ''b'', p_ip = ''10.0.0.3'', p_tcp_port = 1001,
     p_udp_port = 1002, p_ws_port = 1003, p_source = Lan, p_ws_open = True, p_inbound_blocked = False,
     p_reflexive_ip = None, p_reflexive_udp_port = None\<rparr>"

definition sample_net :: net where
  "sample_net = \<lparr>
     identity = \<lparr>i_node_id = ''A'', i_name = ''alice'', i_ip = ''10.0.0.2'', i_tcp_port = 11,
       i_udp_port = 12, i_ws_port = 13\<rparr>,
     key = Some sample_key, peers = [(''B'', sample_peer)], ws_conns = [], p2p_conns = [],
     punch_waiters = [], rtc_waiters = [], clip_active = False, clip_last = '''', clip_pending = [],
     control = with_defaults True, installed_apps = ''[]'', subs = [], directed_transport = ''UDP'',
     server_url = None, token = None, username = None, chans = [], next_chan = 0, ws_seq = 1,
     punch_seq = 1000000, rtc_seq = 2000000, tick = 0, out = []\<rparr>"

lemma sample_sealing: "sealing_lib sample_env"
  by (auto simp: sealing_lib_def sample_env_def sample_seal_def sample_open_def Let_def)

lemma sample_serde: "serde_lib sample_env"
  by (auto simp: serde_lib_def sample_env_def)

lemma sample_frame: "frame_to_string sample_env f = Inr s \<Longrightarrow> frame_from_str sample_env s = Some f"
  by (auto simp: sample_env_def sample_frame_out_def sample_frame_in_def split: ws_frame.splits)

end
