(* ===== verification/Delivery.thy ===== *)
theory Delivery
  imports Sample
begin

text \<open>
  Properties of the message pipeline as a whole: what a receiver makes of what a sender
  sent, which control messages are recognised, what remote input can and cannot change,
  and how the clipboard pull and the liveness ping behave.
\<close>

section \<open>End to end\<close>

text \<open>C1: a chat message sent over UDP or TCP reaches the peer unchanged. If the send
  returns Ok, exactly one datagram (or one connection's stream) carried a body from which a
  receiver with the same key delivers one chat message with the sender's name and text, and
  nothing else happens there. A UDP body must fit the receiver's 65535-byte buffer.\<close>

theorem direct_message_delivered:
  assumes "sealing_lib e" "serde_lib e" "key r = key n" "to_uppercase p \<noteq> ''WS''"
    and sent: "send_payload e s k p t n = (Inr (), n')"
    and chat: "\<not> fst (dispatch e s (show_ipv4 src) (to_uppercase p) t r)"
  shows "\<exists>a body.
     (to_uppercase p = ''UDP'' \<and> out n' = out n @ [Io UdpBind None, Io (UdpSend a body) None] \<and>
        (65535 < length body \<or> udp_recv e (Some (body, src)) r =
          effect (chat_of e r s (show_ipv4 src) ''UDP'' t) (advance r))) \<or>
     (to_uppercase p = ''TCP'' \<and>
        out n' = out n @ [Io (TcpConnect a) None, Io (TcpWrite a body) None, Io (TcpShutdown a) None] \<and>
        tcp_recv e (Some src) (Some body) r =
          effect (chat_of e r s (show_ipv4 src) ''TCP'' t) (advance r))"
proof -
  obtain key' plaintext env n1 body where *: "key n = Some key'"
    "plaintext_to_vec e \<lparr>pt_from = s, pt_text = t\<rparr> = Inr plaintext"
    "encrypt e key' plaintext n = (Some env, n1)" "envelope_to_vec e env = Inr body"
    "send_direct e k (to_uppercase p) body n1 = (Inr (), n')"
    by (rule send_payload_sealed [OF sent], rule that) (use assms(4) in simp_all)
  have env: "envelope_from_slice e body = Some env" using assms(2) *(4) by (simp add: serde_lib_def)
  have "key r = Some key'" using *(1) assms(3) by simp
  from sealed_delivery [OF assms(1,2) this *(2,3) chat]
  have h: "handle_incoming e env (show_ipv4 src) (to_uppercase p) r =
    effect (chat_of e r s (show_ipv4 src) (to_uppercase p) t) (advance r)" .
  have udp: "65535 < length body \<or> udp_recv e (Some (body, src)) r =
      effect (chat_of e r s (show_ipv4 src) ''UDP'' t) (advance r)" if "to_uppercase p = ''UDP''"
    using h env that by (cases "65535 < length body") (simp_all add: udp_recv_def)
  show ?thesis
  proof (cases rule: send_direct_target [OF *(5)])
    case (1 q ip)
    then show ?thesis
      using send_udp_out [of e "V4 ip (p_udp_port q)" body n1 n']
        send_tcp_out [of e "V4 ip (p_tcp_port q)" body n1 n'] encrypt_keeps(1) [OF *(3)] env h udp
      by (cases "to_uppercase p = ''UDP''") (auto simp: tcp_recv_def)
  qed
qed

theorem direct_message_delivered_witness:
  "\<exists>n' a body. send_payload sample_env ''alice'' ''B'' ''udp'' ''hi'' sample_net = (Inr (), n') \<and>
     out n' = [Io UdpBind None, Io (UdpSend a body) None]"
proof -
  have up: "to_uppercase ''udp'' = ''UDP''" by code_simp
  have ip: "parse_ipv4 ''10.0.0.3'' = Some (Ipv4 10 0 0 3)" by code_simp
  have "send_payload sample_env ''alice'' ''B'' ''udp'' ''hi'' sample_net =
      (Inr (), snd (send_payload sample_env ''alice'' ''B'' ''udp'' ''hi'' sample_net))"
    unfolding send_payload_def encrypt_def send_direct_def send_udp_def
    by (simp add: up ip sample_env_def sample_net_def sample_peer_def sample_key_def sample_seal_def
        world_simps hm_simps)
  moreover have "\<not> fst (dispatch sample_env ''alice'' (show_ipv4 (Ipv4 10 0 0 2)) ''UDP'' ''hi'' sample_net)"
    by (simp add: dispatch_def sample_env_def sample_json_in_def)
  ultimately show ?thesis
    using direct_message_delivered [of sample_env sample_net sample_net "''udp''" "''alice''" "''B''"
        "''hi''" "snd (send_payload sample_env ''alice'' ''B'' ''udp'' ''hi'' sample_net)" "Ipv4 10 0 0 2"]
      sample_sealing sample_serde up
    by (auto simp: sample_net_def)
qed

definition authentic_lib :: "env \<Rightarrow> bool" where
  "authentic_lib e = (\<forall>k k' nonce pt ct. length k = 32 \<longrightarrow> length k' = 32 \<longrightarrow> k' \<noteq> k \<longrightarrow>
     aead_encrypt e k nonce pt = Some ct \<longrightarrow> aead_decrypt e k' nonce ct = None)"

text \<open>A message sealed under another key is never shown as its sender's and never
  dropped: the receiver emits exactly one chat message, from "(unknown)", with the fixed
  text and the ok flag off, and changes nothing else.\<close>

theorem foreign_message_flagged:
  assumes "sealing_lib e" "authentic_lib e" "encrypt e k pt n = (Some env, n')" "key r \<noteq> Some k"
  shows "handle_incoming e env ip p r =
    effect (Emit (MessageReceived \<lparr>m_from = ''(unknown)'', m_ip = ip, m_protocol = p,
      m_text = undecryptable_text, m_ts = now_secs e (tick r), m_ok = False\<rparr>)) (advance r)"
proof -
  have "decrypt e k' env = None" if "k' \<noteq> k" for k'
    using assms(1-3) that
    by (auto simp: sealing_lib_def authentic_lib_def encrypt_def decrypt_def draw_bytes_def
        split: if_splits option.splits)
  then have "opened e (key r) env = None" using assms(4) by (auto simp: opened_def split: option.split)
  then show ?thesis
    by (simp add: handle_incoming_def envelope_to_message_def read_clock_def emit_def effect_def)
qed

lemma sample_authentic: "authentic_lib sample_env"
  by (auto simp: authentic_lib_def sample_env_def sample_seal_def sample_open_def Let_def)

theorem foreign_message_flagged_witness:
  "\<exists>env. handle_incoming sample_env env ''10.0.0.9'' ''UDP'' (sample_net\<lparr>key := Some (replicate 32 8)\<rparr>) =
    effect (Emit (MessageReceived \<lparr>m_from = ''(unknown)'', m_ip = ''10.0.0.9'', m_protocol = ''UDP'',
      m_text = undecryptable_text, m_ts = 0, m_ok = False\<rparr>))
      (advance (sample_net\<lparr>key := Some (replicate 32 8)\<rparr>))"
proof -
  obtain env where env: "encrypt sample_env sample_key [1, 2] sample_net = (Some env, advance sample_net)"
    by (auto simp: encrypt_def draw_bytes_def sample_env_def sample_seal_def sample_key_def)
  have "hd (replicate 32 8) \<noteq> (hd (replicate 32 7) :: u8)"
    by (simp add: hd_replicate)
  then have "replicate 32 8 \<noteq> (replicate 32 7 :: bytes)" by metis
  then have "key (sample_net\<lparr>key := Some (replicate 32 8)\<rparr>) \<noteq> Some sample_key"
    by (simp add: sample_key_def)
  from foreign_message_flagged [OF sample_sealing sample_authentic env this]
  show ?thesis by (auto simp: sample_env_def sample_net_def)
qed

text \<open>A message that decrypts but whose contents are not the expected JSON is dropped
  without a trace, for every state: no chat line, no event, no state change. The comment on
  \<open>envelope_to_message\<close> promises that such messages are surfaced.\<close>

theorem unparsable_plaintext_dropped:
  assumes "key r = Some k" "decrypt e k env = Some pt" "plaintext_from_slice e pt = None"
  shows "handle_incoming e env ip p r = r"
  using assms by (simp add: handle_incoming_def opened_def)

theorem unparsable_plaintext_dropped_witness:
  "\<exists>env pt. decrypt sample_env sample_key env = Some pt \<and> plaintext_from_slice sample_env pt = None \<and>
     handle_incoming sample_env env ''10.0.0.9'' ''UDP'' sample_net = sample_net"
proof -
  obtain env where env: "encrypt sample_env sample_key [] sample_net = (Some env, advance sample_net)"
    by (auto simp: encrypt_def draw_bytes_def sample_env_def sample_seal_def sample_key_def)
  have d: "decrypt sample_env sample_key env = Some []"
    by (rule decrypt_encrypt [OF sample_sealing env])
  moreover have "plaintext_from_slice sample_env [] = None"
    by (simp add: sample_env_def bytes_pair_def)
  moreover have "key sample_net = Some sample_key" by (simp add: sample_net_def)
  ultimately show ?thesis
    using unparsable_plaintext_dropped [of sample_net sample_key sample_env env "[]"] by blast
qed

section \<open>Recognised control messages\<close>

definition claimed_kinds :: "bool \<Rightarrow> string list" where
  "claimed_kinds clipboard =
     (if clipboard then [''clipboard'', ''clipboard_request'', ''clipboard_response''] else []) @
     [''notification'', ''call_notification'', ''call_history'', ''apps_request'', ''subscribe_apps'',
      ''apps_list'', ''p2p_ping'', ''p2p_pong'']"

lemma default_handler_claimed: "default_handler c kind \<noteq> None \<longleftrightarrow> kind \<in> set (claimed_kinds c)"
  by (auto simp: default_handler_def claimed_kinds_def)

text \<open>With the default registry a text is taken as a control message exactly if it is
  JSON whose \<open>type\<close> is one of the eight tags, or one of the three clipboard tags where the
  platform has a clipboard. Every other text is shown as chat.\<close>

theorem dispatch_recognises:
  "fst (dispatch e s ip p t (n\<lparr>control := with_defaults c\<rparr>)) =
     (case json_from_str e t of
        None \<Rightarrow> False
      | Some v \<Rightarrow> (case json_str_at v ''type'' of None \<Rightarrow> False | Some kind \<Rightarrow> kind \<in> set (claimed_kinds c)))"
  unfolding default_handler_claimed [symmetric]
  by (auto simp: dispatch_def with_defaults_get split: option.split)

section \<open>Remote input\<close>

datatype net_input =
    TcpStream "ipv4 option" "bytes option"
  | UdpDatagram "(bytes \<times> ipv4) option"
  | LinkFrame envelope string string

fun recv_step :: "env \<Rightarrow> net \<Rightarrow> net_input \<Rightarrow> net" where
  "recv_step e n (TcpStream a i) = tcp_recv e a i n"
| "recv_step e n (UdpDatagram r) = udp_recv e r n"
| "recv_step e n (LinkFrame env ip p) = handle_incoming e env ip p n"

interpretation receiver: step_system "recv_step e" "\<lambda>n. guarded n0 n" for e n0
proof
  fix n x
  assume "guarded n0 n"
  moreover have "guarded n (recv_step e n x)"
    by (cases x) (simp_all add: tcp_recv_guarded udp_recv_guarded handle_incoming_guarded)
  ultimately show "guarded n0 (recv_step e n x)" by (rule guarded_trans)
qed


section \<open>Clipboard pull and ping\<close>

definition control_of :: "string \<Rightarrow> string \<Rightarrow> string \<Rightarrow> json \<Rightarrow> control_msg" where
  "control_of s ip p v = \<lparr>cm_from = s, cm_ip = ip, cm_protocol = p, cm_value = v\<rparr>"

text \<open>A clipboard response is handed to the waiting pull exactly once. The content
  arrives in that pull's channel, nothing else changes, and a second response from the same
  peer is ignored.\<close>

theorem clipboard_response_once:
  assumes "msg_kind msg = ''clipboard_response''"
    "hm_get (clip_pending n) (msg_str msg ''from'') = Some tx" "hm_get (chans n) tx = Some q"
  shows "let n' = clipboard_handle e msg n in
     n' = n\<lparr>clip_pending := hm_remove (msg_str msg ''from'') (clip_pending n),
            chans := hm_insert tx (q @ [StrMsg (msg_str msg ''content'')]) (chans n)\<rparr> \<and>
     clipboard_handle e msg n' = n'"
  using assms by (simp add: clipboard_handle_def chan_send_def Let_def)

definition sample_response :: control_msg where
  "sample_response = control_of ''bob'' '''' ''UDP''
     (obj [(''type'', JStr ''clipboard_response''), (''from'', JStr ''B''), (''content'', JStr ''x'')])"

theorem clipboard_response_once_witness:
  "chans (clipboard_handle sample_env sample_response
     (sample_net\<lparr>clip_pending := [(''B'', 4)], chans := [(4, [])]\<rparr>)) = [(4, [StrMsg ''x''])]"
proof -
  let ?n = "sample_net\<lparr>clip_pending := [(''B'', 4)], chans := [(4, [])]\<rparr>"
  have "msg_kind sample_response = ''clipboard_response''" "msg_str sample_response ''from'' = ''B''"
    "msg_str sample_response ''content'' = ''x''"
    by (simp_all add: msg_kind_def msg_str_def sample_response_def control_of_def json_str_at_def)
  then show ?thesis
    using clipboard_response_once [of sample_response ?n 4 "[]" sample_env]
    by (simp add: hm_simps hm_insert_def Let_def)
qed

definition writers_total :: "env \<Rightarrow> bool" where
  "writers_total e = ((\<forall>k nonce pt. length k = 32 \<longrightarrow> aead_encrypt e k nonce pt \<noteq> None) \<and>
     (\<forall>pt. \<not> isl (plaintext_to_vec e pt)) \<and> (\<forall>env. \<not> isl (envelope_to_vec e env)) \<and>
     (\<forall>f. \<not> isl (frame_to_string e f)))"

lemma isrE: "\<not> isl x \<Longrightarrow> \<exists>y. x = Inr y"
  by (cases x) auto

lemma control_over_link:
  assumes "sealing_lib e" "serde_lib e" "writers_total e" "key n = Some k" "length k = 32"
    "hm_get (ws_conns n) node = Some (cid, c)" "hm_get (chans n) c = Some q"
  shows "\<exists>f env pt. send_control_to e node t n =
      (advance n)\<lparr>chans := hm_insert c (q @ [StrMsg f]) (chans n)\<rparr> \<and>
    frame_to_string e (Msg (e_nonce env) (e_ciphertext env)) = Inr f \<and>
    decrypt e k env = Some pt \<and>
    plaintext_from_slice e pt = Some \<lparr>pt_from = i_name (identity n), pt_text = t\<rparr>"
proof -
  obtain pt where pt: "plaintext_to_vec e \<lparr>pt_from = i_name (identity n), pt_text = t\<rparr> = Inr pt"
    using assms(3) isrE unfolding writers_total_def by meson
  obtain ct where "aead_encrypt e k (os_rng e (tick n) 24) pt = Some ct"
    using assms(3,5) unfolding writers_total_def by blast
  then obtain env where env: "encrypt e k pt n = (Some env, advance n)"
    using assms(5) by (simp add: encrypt_def draw_bytes_def)
  obtain body where body: "envelope_to_vec e env = Inr body"
    using assms(3) isrE unfolding writers_total_def by meson
  obtain f where f: "frame_to_string e (Msg (e_nonce env) (e_ciphertext env)) = Inr f"
    using assms(3) isrE unfolding writers_total_def by meson
  have "send_control_to e node t n = (advance n)\<lparr>chans := hm_insert c (q @ [StrMsg f]) (chans n)\<rparr>"
    using assms(4,6,7)
    by (simp add: send_control_to_def send_payload_def clip_proto_def best_proto_def hm_contains_def
        proto_upper pt env body send_ws_def f chan_send_def Let_def encrypt_keeps [OF env])
  moreover have "decrypt e k env = Some pt" by (rule decrypt_encrypt [OF assms(1) env])
  moreover have "plaintext_from_slice e pt = Some \<lparr>pt_from = i_name (identity n), pt_text = t\<rparr>"
    using assms(2) pt by (simp add: serde_lib_def)
  ultimately show ?thesis using f by blast
qed

text \<open>C26: a ping over a live link marks its sender live and is answered by exactly one pong.
  The peer's registry entry is refreshed (its transport kept, or UDP if it was unknown), one
  frame is queued on the peer's link that opens to a pong from this device, and no other
  queue, socket or part of the state changes.\<close>

theorem ping_answered:
  assumes "sealing_lib e" "serde_lib e" "writers_total e" "key n = Some k" "length k = 32"
    "msg_kind msg = ''p2p_ping''" "msg_str msg ''from'' = node" "node \<noteq> []"
    "hm_get (ws_conns n) node = Some (cid, c)" "hm_get (chans n) c = Some q"
  shows "\<exists>f env pt. p2p_ping_handle e msg n =
      (advance (mark_live e node Udp None n))\<lparr>chans := hm_insert c (q @ [StrMsg f]) (chans n)\<rparr> \<and>
    frame_to_string e (Msg (e_nonce env) (e_ciphertext env)) = Inr f \<and>
    decrypt e k env = Some pt \<and>
    plaintext_from_slice e pt = Some \<lparr>pt_from = i_name (identity n), pt_text = json_to_string e
      (obj [(''type'', JStr ''p2p_pong''), (''from'', JStr (i_node_id (identity n)))])\<rparr>"
proof -
  let ?m = "mark_live e node Udp None n"
  have same: "key ?m = key n" "ws_conns ?m = ws_conns n" "identity ?m = identity n" "chans ?m = chans n"
    by (auto simp: mark_live_def world_simps split: option.split)
  let ?pong = "json_to_string e
      (obj [(''type'', JStr ''p2p_pong''), (''from'', JStr (i_node_id (identity n)))])"
  have "p2p_ping_handle e msg n = send_control_to e node ?pong ?m"
    using assms(6-8) by (simp add: p2p_ping_handle_def Let_def same)
  then show ?thesis
    using control_over_link [OF assms(1-3), of ?m k node cid c q ?pong] assms(4,5,9,10)
    by (simp add: same)
qed

definition sample_linked :: net where
  "sample_linked = sample_net\<lparr>ws_conns := [(''B'', (1, 4))], chans := [(4, [])]\<rparr>"

definition sample_ping :: control_msg where
  "sample_ping = control_of ''bob'' '''' ''WS'' (obj [(''type'', JStr ''p2p_ping''), (''from'', JStr ''B'')])"

lemma sample_writers: "writers_total sample_env"
  by (auto simp: writers_total_def sample_env_def sample_seal_def sample_frame_out_def split: ws_frame.split)

lemma sample_ping_fields: "msg_kind sample_ping = ''p2p_ping''" "msg_str sample_ping ''from'' = ''B''"
  by (simp_all add: msg_kind_def msg_str_def sample_ping_def control_of_def json_str_at_def)

theorem ping_answered_witness:
  "\<exists>f. hm_get (chans (p2p_ping_handle sample_env sample_ping sample_linked)) 4 = Some [StrMsg f] \<and>
     map_option l_kind (hm_get (p2p_conns (p2p_ping_handle sample_env sample_ping sample_linked)) ''B'')
       = Some Udp"
proof -
  have "key sample_linked = Some sample_key" "length sample_key = 32"
    "hm_get (ws_conns sample_linked) ''B'' = Some (1, 4)" "hm_get (chans sample_linked) 4 = Some []"
    "p2p_conns sample_linked = []"
    by (simp_all add: sample_linked_def sample_net_def sample_key_def hm_simps)
  then show ?thesis
    using ping_answered [OF sample_sealing sample_serde sample_writers, of sample_linked sample_key
        sample_ping "''B''" 1 4 "[]"] sample_ping_fields
      mark_live_get [of sample_env "''B''" Udp None sample_linked "''B''"]
    by (auto simp: advance_def)
qed

text \<open>Pings do not echo. A pong only refreshes the registry: it is never answered, so
  two devices cannot keep each other busy, and a message without a sender is ignored.\<close>

theorem pong_not_answered:
  "p2p_ping_handle e (control_of s ip p (obj [(''type'', JStr ''p2p_pong''), (''from'', JStr node)])) n =
     (if node = '''' then n else mark_live e node Udp None n)"
  by (simp add: p2p_ping_handle_def msg_kind_def msg_str_def control_of_def json_str_at_def Let_def)

end
