(* ===== verification/Link_Ws.thy ===== *)
theory Link_Ws
  imports Receive
begin

text \<open>
  The WebSocket link (\<open>transport/ws.rs\<close>, \<open>handle_ws_conn\<close>): one thread per connection. The
  \<open>tungstenite\<close> socket is third-party: what its \<open>read\<close> returns, and which of its \<open>send\<close> calls
  succeed, are inputs. One turn of the loop is \<open>ws_turn\<close>; the clean-up after the loop is in two
  parts because the code releases the lock between them.
\<close>

section \<open>The connection thread\<close>

record ws_conn =
  wc_id :: u64
  wc_chan :: nat
  wc_peer :: "string option"

datatype ws_read = ReadText string | ReadClose | ReadOther | ReadIdle | ReadError

definition ws_start :: "env \<Rightarrow> net \<Rightarrow> string \<times> ws_conn \<times> net" where
  "ws_start e n =
     (let hello = (case frame_to_string e (Hello (i_node_id (identity n)) (i_name (identity n))) of
                     Inr s \<Rightarrow> s | Inl _ \<Rightarrow> '''');
          (c, n) = new_channel n;
          my_conn_id = ws_seq n;
          n = n\<lparr>ws_seq := my_conn_id + 1\<rparr>
      in (hello, \<lparr>wc_id = my_conn_id, wc_chan = c, wc_peer = None\<rparr>, n))"

text \<open>The \<open>match\<close> on a read; the flag is \<open>break\<close>.\<close>

definition ws_hello :: "env \<Rightarrow> ws_conn \<Rightarrow> string \<Rightarrow> net \<Rightarrow> bool \<times> ws_conn \<times> net" where
  "ws_hello e w node_id n =
     (if hm_contains (ws_conns n) node_id then (True, w, n)
      else
        let n = n\<lparr>ws_conns := hm_insert node_id (wc_id w, wc_chan w) (ws_conns n)\<rparr>;
            n = emit (WsConnected node_id) n;
            n = mark_live e node_id Ws None n
        in (False, w\<lparr>wc_peer := Some node_id\<rparr>, n))"

fun ws_on_read :: "env \<Rightarrow> ws_conn \<Rightarrow> ws_read \<Rightarrow> net \<Rightarrow> bool \<times> ws_conn \<times> net" where
  "ws_on_read e w (ReadText t) n =
     (case frame_from_str e t of
        None \<Rightarrow> (False, w, n)
      | Some (Hello node_id _) \<Rightarrow> ws_hello e w node_id n
      | Some (Msg nonce ct) \<Rightarrow>
          (False, w, handle_incoming e \<lparr>e_nonce = nonce, e_ciphertext = ct\<rparr> '''' ''WS'' n))"
| "ws_on_read e w ReadClose n = (True, w, n)"
| "ws_on_read e w ReadOther n = (False, w, n)"
| "ws_on_read e w ReadIdle n = (False, w, n)"
| "ws_on_read e w ReadError n = (True, w, n)"

text \<open>
  The flush: \<open>ok k\<close> tells whether the \<open>k\<close>-th \<open>send\<close> succeeds. A frame whose send fails has
  left the queue. The result lists the frames sent, whether the socket is dead, and the rest
  of the queue.
\<close>

fun drain :: "(nat \<Rightarrow> bool) \<Rightarrow> nat \<Rightarrow> chan_msg list \<Rightarrow> string list \<times> bool \<times> chan_msg list" where
  "drain ok k [] = ([], False, [])"
| "drain ok k (StrMsg f # q) =
     (if ok k then (let (sent, dead, rest) = drain ok (Suc k) q in (f # sent, dead, rest))
      else ([], True, q))"
| "drain ok k (CandMsg _ # q) = drain ok k q"

definition ws_flush :: "(nat \<Rightarrow> bool) \<Rightarrow> nat \<Rightarrow> net \<Rightarrow> string list \<times> bool \<times> net" where
  "ws_flush ok c n =
     (case hm_get (chans n) c of
        None \<Rightarrow> ([], False, n)
      | Some q \<Rightarrow>
          (let (sent, dead, rest) = drain ok 0 q in
           (sent, dead, n\<lparr>chans := hm_insert c rest (chans n)\<rparr>)))"

definition ws_turn ::
  "env \<Rightarrow> ws_conn \<Rightarrow> ws_read \<Rightarrow> (nat \<Rightarrow> bool) \<Rightarrow> net \<Rightarrow> bool \<times> ws_conn \<times> string list \<times> net" where
  "ws_turn e w r ok n =
     (case ws_on_read e w r n of
        (True, w, n) \<Rightarrow> (True, w, [], n)
      | (False, w, n) \<Rightarrow>
          (let (sent, dead, n) = ws_flush ok (wc_chan w) n in (dead, w, sent, n)))"

text \<open>
  After the loop: take the entry out if it is ours, then mark the peer gone. The receiver of
  the queue is dropped last, with the thread.
\<close>

definition owns :: "(string, u64 \<times> nat) hmap \<Rightarrow> string \<Rightarrow> u64 \<Rightarrow> bool" where
  "owns conns node_id cid = (map_option fst (hm_get conns node_id) = Some cid)"

definition ws_unregister :: "ws_conn \<Rightarrow> net \<Rightarrow> string option \<times> net" where
  "ws_unregister w n =
     (case wc_peer w of
        None \<Rightarrow> (None, n)
      | Some pid \<Rightarrow>
          if owns (ws_conns n) pid (wc_id w) then
            (Some pid, emit (WsDisconnected pid) (n\<lparr>ws_conns := hm_remove pid (ws_conns n)\<rparr>))
          else (None, n))"

definition ws_finish :: "ws_conn \<Rightarrow> string option \<Rightarrow> net \<Rightarrow> net" where
  "ws_finish w gone n =
     chan_drop (wc_chan w) (case gone of None \<Rightarrow> n | Some pid \<Rightarrow> drop_live pid n)"

definition ws_close :: "ws_conn \<Rightarrow> net \<Rightarrow> net" where
  "ws_close w n = (let (gone, n) = ws_unregister w n in ws_finish w gone n)"

text \<open>
  The thread as a whole, over the list of what happens in its turns. It either is still
  running at the end of the list, or has closed.
\<close>

fun handle_ws_conn ::
  "env \<Rightarrow> ws_conn \<Rightarrow> (ws_read \<times> (nat \<Rightarrow> bool)) list \<Rightarrow> net \<Rightarrow> string list \<times> ws_conn option \<times> net" where
  "handle_ws_conn e w [] n = ([], Some w, n)"
| "handle_ws_conn e w ((r, ok) # turns) n =
     (case ws_turn e w r ok n of
        (True, w, sent, n) \<Rightarrow> (sent, None, ws_close w n)
      | (False, w, sent, n) \<Rightarrow>
          (let (more, w, n) = handle_ws_conn e w turns n in (sent @ more, w, n)))"

text \<open>\<open>ws_connect\<close>: the outcomes of the TCP connect, the time-out option and the handshake.\<close>

definition ws_connect ::
  "env \<Rightarrow> string option \<Rightarrow> string option \<Rightarrow> string option \<Rightarrow> string \<Rightarrow> u16 \<Rightarrow> net \<Rightarrow>
   (string + (string \<times> ws_conn)) \<times> net" where
  "ws_connect e connect set_timeout handshake ip port n =
     (case parse_ipv4 ip of
        None \<Rightarrow> (Inl ''bad peer ip'', n)
      | Some _ \<Rightarrow>
          (case connect of
             Some err \<Rightarrow> (Inl (''WS connect failed: '' @ err), n)
           | None \<Rightarrow>
               (case set_timeout of
                  Some err \<Rightarrow> (Inl err, n)
                | None \<Rightarrow>
                    (case handshake of
                       Some err \<Rightarrow> (Inl (''WS handshake failed: '' @ err), n)
                     | None \<Rightarrow> (let (hello, w, n) = ws_start e n in (Inr (hello, w), n))))))"

text \<open>One accepted stream of \<open>ws_server_loop\<close>: a connection starts if the handshake succeeds.\<close>

definition ws_accept :: "env \<Rightarrow> bool \<Rightarrow> net \<Rightarrow> (string \<times> ws_conn) option \<times> net" where
  "ws_accept e handshake n =
     (if handshake then (let (hello, w, n) = ws_start e n in (Some (hello, w), n)) else (None, n))"

end
