(* ===== verification/Link_Punch.thy ===== *)
theory Link_Punch
  imports Receive Nat_Punch Chunking Nat_Stun
begin

text \<open>
  The punched UDP link (\<open>transport/punch.rs\<close>: \<open>gather_candidates\<close>, \<open>punch_and_run\<close>,
  \<open>run_punch_conn\<close>). The driver thread's turn ferries queued frames out in chunks, keeps the
  NAT binding open, feeds received datagrams to the reassembler and watches whether the
  link is still the registered one.
\<close>

section \<open>Candidates\<close>

text \<open>
  Inputs: whether the bind and the query of the local port succeed, the resolved STUN server
  and the STUN exchange's result on that socket (an IPv4 mapping: \<open>parse_mapped\<close> reads no other).
\<close>

definition gather_candidates ::
  "u16 option \<Rightarrow> sock_addr option \<Rightarrow> (ipv4 \<times> u16) option \<Rightarrow> net \<Rightarrow> candidate list option" where
  "gather_candidates bound server reflexive n =
     (case bound of
        None \<Rightarrow> None
      | Some port \<Rightarrow>
          (let my_ip = i_ip (identity n);
               host = (if my_ip \<noteq> '''' \<and> my_ip \<noteq> ''0.0.0.0''
                       then [\<lparr>c_ip = my_ip, c_port = port, c_kind = ''host''\<rparr>] else []);
               srflx = (case server of
                          None \<Rightarrow> []
                        | Some _ \<Rightarrow>
                            (case reflexive of
                               Some (ip, p) \<Rightarrow> [\<lparr>c_ip = show_ipv4 ip, c_port = p, c_kind = ''srflx''\<rparr>]
                             | None \<Rightarrow> []));
               cands = host @ srflx
           in if cands = [] then None else Some cands))"

text \<open>
  \<open>to_addrs\<close> parses "ip:port". \<open>SocketAddr::from_str\<close> accepts an IPv4 address or a
  bracketed IPv6 one; the latter's parser is the argument \<open>v6\<close>.
\<close>

definition to_addr :: "(string \<Rightarrow> sock_addr option) \<Rightarrow> candidate \<Rightarrow> sock_addr option" where
  "to_addr v6 c =
     (case parse_ipv4 (c_ip c) of
        Some ip \<Rightarrow> Some (V4 ip (c_port c))
      | None \<Rightarrow> v6 (c_ip c @ '':'' @ show_nat (unat (c_port c))))"

definition to_addrs :: "(string \<Rightarrow> sock_addr option) \<Rightarrow> candidate list \<Rightarrow> sock_addr list" where
  "to_addrs v6 cands = List.map_filter (to_addr v6) cands"

text \<open>
  \<open>punch_and_run\<close> up to the driver loop: no candidate, no punch; an address from the hole
  punch must also confirm a round trip.
\<close>

definition punch_path ::
  "(string \<Rightarrow> sock_addr option) \<Rightarrow> candidate list \<Rightarrow> (sock_addr list \<Rightarrow> sock_addr option) \<Rightarrow>
   (sock_addr \<Rightarrow> sock_addr option) \<Rightarrow> sock_addr option" where
  "punch_path v6 cands punch confirm =
     (let addrs = to_addrs v6 cands in
      if addrs = [] then None
      else case punch addrs of None \<Rightarrow> None | Some a \<Rightarrow> confirm a)"

section \<open>The driver\<close>

record punch_conn =
  pc_id :: u64
  pc_chan :: nat
  pc_node :: string
  pc_addr :: sock_addr
  pc_last_ka :: nat
  pc_next_msg :: u32
  pc_pending :: pending

definition punch_start :: "env \<Rightarrow> nat \<Rightarrow> sock_addr \<Rightarrow> string \<Rightarrow> net \<Rightarrow> punch_conn option \<times> net" where
  "punch_start e now addr node_id n =
     (let (c, n) = new_channel n;
          my_conn_id = punch_seq n;
          n = n\<lparr>punch_seq := my_conn_id + 1\<rparr>
      in if hm_contains (ws_conns n) node_id then (None, chan_drop c n)
         else
           let n = n\<lparr>ws_conns := hm_insert node_id (my_conn_id, c) (ws_conns n)\<rparr>;
               n = mark_live e node_id Punch (Some addr) n
           in (Some \<lparr>pc_id = my_conn_id, pc_chan = c, pc_node = node_id, pc_addr = addr,
                     pc_last_ka = now, pc_next_msg = 0, pc_pending = []\<rparr>, n))"

text \<open>
  One turn's inputs: the outcome of each datagram of the flush, by frame and chunk; the clock
  at the keepalive test and after it; what \<open>recv_from\<close> returned (\<open>None\<close>: time-out or error).
\<close>

record punch_turn_in =
  pt_io :: "nat \<Rightarrow> nat \<Rightarrow> string option"
  pt_elapsed :: nat
  pt_now :: nat
  pt_dgram :: "(bytes \<times> ipv4 \<times> u16) option"

fun punch_drain ::
  "(nat \<Rightarrow> nat \<Rightarrow> string option) \<Rightarrow> nat \<Rightarrow> u32 \<Rightarrow> chan_msg list \<Rightarrow> bytes list \<times> u32 \<times> bool \<times> chan_msg list" where
  "punch_drain io k mid [] = ([], mid, False, [])"
| "punch_drain io k mid (StrMsg f # q) =
     (case send_chunked (io k) mid (str_bytes f) of
        (sent, Inl _) \<Rightarrow> (sent, mid + 1, True, q)
      | (sent, Inr _) \<Rightarrow>
          (let (more, mid', dead, rest) = punch_drain io (Suc k) (mid + 1) q
           in (sent @ more, mid', dead, rest)))"
| "punch_drain io k mid (CandMsg _ # q) = punch_drain io k mid q"

definition punch_flush ::
  "(nat \<Rightarrow> nat \<Rightarrow> string option) \<Rightarrow> punch_conn \<Rightarrow> net \<Rightarrow> bytes list \<times> bool \<times> punch_conn \<times> net" where
  "punch_flush io p n =
     (case hm_get (chans n) (pc_chan p) of
        None \<Rightarrow> ([], False, p, n)
      | Some q \<Rightarrow>
          (let (sent, mid, dead, rest) = punch_drain io 0 (pc_next_msg p) q in
           (sent, dead, p\<lparr>pc_next_msg := mid\<rparr>, n\<lparr>chans := hm_insert (pc_chan p) rest (chans n)\<rparr>)))"

definition punch_keepalive :: "punch_turn_in \<Rightarrow> punch_conn \<Rightarrow> (bytes \<times> sock_addr) list \<times> punch_conn" where
  "punch_keepalive i p =
     (if pt_elapsed i - pc_last_ka p \<ge> 3000
      then ([(PUNCH_PING, pc_addr p)], p\<lparr>pc_last_ka := pt_now i\<rparr>) else ([], p))"

definition punch_on_dgram ::
  "env \<Rightarrow> punch_conn \<Rightarrow> (bytes \<times> ipv4 \<times> u16) option \<Rightarrow> net \<Rightarrow>
   ((bytes \<times> sock_addr) list \<times> punch_conn \<times> net) exec" where
  "punch_on_dgram e p rcv n =
     (case rcv of
        None \<Rightarrow> Some ([], p, n)
      | Some (d, ip, port) \<Rightarrow>
          (let b = take 65535 d; src = V4 ip port in
           if b = PUNCH_PING then
             Some ([(PUNCH_PONG, src)], p\<lparr>pc_addr := src\<rparr>, touch_live e (pc_node p) n)
           else if b = PUNCH_PONG then
             Some ([], p\<lparr>pc_addr := src\<rparr>, touch_live e (pc_node p) n)
           else
             (case reasm_feed (pc_pending p) b of
                None \<Rightarrow> None
              | Some (pending, None) \<Rightarrow> Some ([], p\<lparr>pc_pending := pending\<rparr>, n)
              | Some (pending, Some frame) \<Rightarrow>
                  (let p = p\<lparr>pc_pending := pending, pc_addr := src\<rparr>;
                       n = touch_live e (pc_node p) n
                   in case frame_from_str e (bytes_text frame) of
                        Some (Msg nonce ct) \<Rightarrow>
                          Some ([], p, handle_incoming e \<lparr>e_nonce = nonce, e_ciphertext = ct\<rparr>
                            (show_ipv4 ip) ''UDP'' n)
                      | _ \<Rightarrow> Some ([], p, n)))))"

definition link_current :: "string \<Rightarrow> u64 \<Rightarrow> net \<Rightarrow> bool" where
  "link_current node_id cid n =
     (map_option fst (hm_get (ws_conns n) node_id) = Some cid \<and> hm_contains (p2p_conns n) node_id)"

text \<open>The turn: the flag is \<open>break\<close>; the list is what left the socket, in order.\<close>

definition punch_turn ::
  "env \<Rightarrow> punch_conn \<Rightarrow> punch_turn_in \<Rightarrow> net \<Rightarrow>
   (bool \<times> (bytes \<times> sock_addr) list \<times> punch_conn \<times> net) exec" where
  "punch_turn e p i n =
     (let addr = pc_addr p; (sent, dead, p, n) = punch_flush (pt_io i) p n;
          chunks = map (\<lambda>b. (b, addr)) sent
      in if dead then Some (True, chunks, p, n)
         else
           let (ka, p) = punch_keepalive i p in
           case punch_on_dgram e p (pt_dgram i) n of
             None \<Rightarrow> None
           | Some (replies, p, n) \<Rightarrow>
               Some (\<not> link_current (pc_node p) (pc_id p) n, chunks @ ka @ replies, p, n))"

text \<open>After the loop: the slot is freed only if it is ours, the registry entry always.\<close>

definition punch_close :: "punch_conn \<Rightarrow> net \<Rightarrow> net" where
  "punch_close p n =
     (let n = (if map_option fst (hm_get (ws_conns n) (pc_node p)) = Some (pc_id p)
               then n\<lparr>ws_conns := hm_remove (pc_node p) (ws_conns n)\<rparr> else n);
          n = drop_live (pc_node p) n
      in chan_drop (pc_chan p) n)"

section \<open>No panic\<close>

lemma punch_on_dgram_total:
  assumes "pending_ok (pc_pending p)"
  shows "\<exists>s p' n'. punch_on_dgram e p r n = Some (s, p', n') \<and> pending_ok (pc_pending p')"
proof (cases r)
  case (Some d)
  obtain b ip port where d: "d = (b, ip, port)" by (cases d)
  obtain q out where "reasm_feed (pc_pending p) (take 65535 b) = Some (q, out)" "pending_ok q"
    using reasm_feed_safe [OF assms] by blast
  then show ?thesis
    using assms by (cases out) (auto simp: punch_on_dgram_def Some d Let_def
        split: option.split ws_frame.split)
qed (use assms in \<open>simp add: punch_on_dgram_def\<close>)

lemma punch_turn_total:
  assumes "pending_ok (pc_pending p)"
  shows "\<exists>b s p' n'. punch_turn e p i n = Some (b, s, p', n') \<and> pending_ok (pc_pending p')"
proof -
  obtain sent dead p1 n1 where f: "punch_flush (pt_io i) p n = (sent, dead, p1, n1)"
    by (metis prod.collapse)
  have p1: "pending_ok (pc_pending p1)"
    using f assms by (auto simp: punch_flush_def Let_def split: option.splits prod.splits)
  obtain ka p2 where k: "punch_keepalive i p1 = (ka, p2)" by fastforce
  have "pending_ok (pc_pending p2)"
    using k p1 by (auto simp: punch_keepalive_def split: if_splits)
  then obtain s p3 n3 where "punch_on_dgram e p2 (pt_dgram i) n1 = Some (s, p3, n3)"
    "pending_ok (pc_pending p3)"
    using punch_on_dgram_total by blast
  then show ?thesis using p1 by (auto simp: punch_turn_def f k Let_def)
qed

end
