(* ===== verification/Link_Rtc.thy ===== *)
theory Link_Rtc
  imports Link_Punch
begin

text \<open>
  The WebRTC link (\<open>transport/rtc.rs\<close>, \<open>drive\<close> and \<open>cleanup\<close>). The \<open>str0m\<close> engine is
  third-party: whether it is alive, what \<open>poll_output\<close> hands out in one turn and how the pump
  ends are inputs here (\<open>Rtc_Drive\<close> has the loop that calls it). The thread's own part is modelled: the registration on the first open
  channel, the frames in and out, the eviction test and the clean-up.
\<close>

section \<open>Offer and answer\<close>

text \<open>
  The SDP engine: whether it takes a host or a reflexive candidate, the offer and the answer it
  makes with the candidates added so far, and whether it accepts an answer; a failed
  (de)serialisation of an SDP is \<open>None\<close> too.
\<close>

datatype rtc_cand = RtcHost sock_addr | RtcReflexive sock_addr sock_addr

record rtc_lib =
  rl_takes :: "rtc_cand \<Rightarrow> bool"
  rl_offer :: "rtc_cand list \<Rightarrow> string option"
  rl_answer :: "rtc_cand list \<Rightarrow> string \<Rightarrow> string option"

text \<open>
  \<open>new_rtc\<close>: the local address of the socket bound on the LAN address, of the one bound on any
  address if that fails, the resolved STUN server and the STUN exchange's result.
\<close>

definition new_rtc ::
  "rtc_lib \<Rightarrow> sock_addr option option \<Rightarrow> sock_addr option option \<Rightarrow> sock_addr option \<Rightarrow> sock_addr option \<Rightarrow>
   rtc_cand list option" where
  "new_rtc lib on_lan on_any server reflexive =
     (case (case on_lan of Some l \<Rightarrow> Some l | None \<Rightarrow> on_any) of
        None \<Rightarrow> None
      | Some None \<Rightarrow> None
      | Some (Some local) \<Rightarrow>
          (let host = filter (rl_takes lib) [RtcHost local];
               refl = (case server of
                         None \<Rightarrow> []
                       | Some _ \<Rightarrow>
                           (case reflexive of
                              None \<Rightarrow> []
                            | Some r \<Rightarrow> filter (rl_takes lib) [RtcReflexive r local]))
           in Some (host @ refl)))"

definition create_offer :: "rtc_lib \<Rightarrow> rtc_cand list option \<Rightarrow> string option" where
  "create_offer lib rtc = (case rtc of None \<Rightarrow> None | Some cands \<Rightarrow> rl_offer lib cands)"

definition accept_offer :: "rtc_lib \<Rightarrow> rtc_cand list option \<Rightarrow> string \<Rightarrow> string option" where
  "accept_offer lib rtc offer_sdp = (case rtc of None \<Rightarrow> None | Some cands \<Rightarrow> rl_answer lib cands offer_sdp)"

section \<open>The driver\<close>

record rtc_conn =
  rc_id :: u64
  rc_chan :: nat
  rc_node :: string
  rc_cid :: "nat option"
  rc_registered :: bool

datatype rtc_output =
    Transmit bytes sock_addr
  | ChannelOpen nat
  | ChannelData bytes
  | ChannelClose
  | OtherEvent

text \<open>One turn: \<open>ri_channel\<close> tells whether the \<open>k\<close>-th \<open>rtc.channel(c)\<close> of the flush finds the
  channel; \<open>ri_failed\<close> whether the pump ends in an error rather than a time-out.\<close>

record rtc_turn_in =
  ri_alive :: bool
  ri_channel :: "nat \<Rightarrow> nat \<Rightarrow> bool"
  ri_outputs :: "rtc_output list"
  ri_failed :: bool

definition rtc_start :: "string \<Rightarrow> net \<Rightarrow> rtc_conn \<times> net" where
  "rtc_start node_id n =
     (let (c, n) = new_channel n;
          my_conn_id = rtc_seq n;
          n = n\<lparr>rtc_seq := my_conn_id + 1\<rparr>
      in (\<lparr>rc_id = my_conn_id, rc_chan = c, rc_node = node_id, rc_cid = None,
           rc_registered = False\<rparr>, n))"

fun frames_of :: "chan_msg list \<Rightarrow> string list" where
  "frames_of [] = []"
| "frames_of (StrMsg f # q) = f # frames_of q"
| "frames_of (CandMsg _ # q) = frames_of q"

text \<open>The queue is emptied once the channel is open; the result is what was written to it.\<close>

fun rtc_write :: "(nat \<Rightarrow> bool) \<Rightarrow> nat \<Rightarrow> string list \<Rightarrow> string list" where
  "rtc_write found k [] = []"
| "rtc_write found k (f # fs) = (if found k then f # rtc_write found (Suc k) fs else rtc_write found (Suc k) fs)"

definition rtc_flush :: "(nat \<Rightarrow> nat \<Rightarrow> bool) \<Rightarrow> rtc_conn \<Rightarrow> net \<Rightarrow> string list \<times> net" where
  "rtc_flush found r n =
     (case rc_cid r of
        None \<Rightarrow> ([], n)
      | Some c \<Rightarrow>
          (case hm_get (chans n) (rc_chan r) of
             None \<Rightarrow> ([], n)
           | Some q \<Rightarrow>
               (rtc_write (\<lambda>k. found k c) 0 (frames_of q),
                n\<lparr>chans := hm_insert (rc_chan r) [] (chans n)\<rparr>)))"

fun rtc_on_output :: "env \<Rightarrow> rtc_conn \<Rightarrow> rtc_output \<Rightarrow> net \<Rightarrow> rtc_conn \<times> net" where
  "rtc_on_output e r (Transmit _ _) n = (r, n)"
| "rtc_on_output e r (ChannelOpen c) n =
     (let r = r\<lparr>rc_cid := Some c\<rparr> in
      if rc_registered r then (r, n)
      else
        let r = r\<lparr>rc_registered := True\<rparr>;
            n = n\<lparr>ws_conns := hm_insert (rc_node r) (rc_id r, rc_chan r) (ws_conns n)\<rparr>;
            n = mark_live e (rc_node r) WebRtc None n
        in (r, n))"
| "rtc_on_output e r (ChannelData d) n =
     (case frame_from_str e (bytes_text d) of
        Some (Msg nonce ct) \<Rightarrow>
          (r, handle_incoming e \<lparr>e_nonce = nonce, e_ciphertext = ct\<rparr> '''' ''UDP'' n)
      | _ \<Rightarrow> (r, n))"
| "rtc_on_output e r ChannelClose n = (r, n)"
| "rtc_on_output e r OtherEvent n = (r, n)"

fun rtc_pump :: "env \<Rightarrow> rtc_conn \<Rightarrow> rtc_output list \<Rightarrow> net \<Rightarrow> rtc_conn \<times> net" where
  "rtc_pump e r [] n = (r, n)"
| "rtc_pump e r (x # xs) n = (let (r, n) = rtc_on_output e r x n in rtc_pump e r xs n)"

text \<open>The flag is the end of the loop, by \<open>break\<close> or by the early return on an error.\<close>

definition rtc_turn ::
  "env \<Rightarrow> rtc_conn \<Rightarrow> rtc_turn_in \<Rightarrow> net \<Rightarrow> bool \<times> string list \<times> rtc_conn \<times> net" where
  "rtc_turn e r i n =
     (if \<not> ri_alive i then (True, [], r, n)
      else
        let (sent, n) = rtc_flush (ri_channel i) r n;
            (r, n) = rtc_pump e r (ri_outputs i) n
        in (ri_failed i \<or> (rc_registered r \<and> \<not> link_current (rc_node r) (rc_id r) n), sent, r, n))"

definition rtc_cleanup :: "rtc_conn \<Rightarrow> net \<Rightarrow> net" where
  "rtc_cleanup r n =
     (if \<not> rc_registered r then n
      else
        let n = (if map_option fst (hm_get (ws_conns n) (rc_node r)) = Some (rc_id r)
                 then n\<lparr>ws_conns := hm_remove (rc_node r) (ws_conns n)\<rparr> else n)
        in drop_live (rc_node r) n)"

definition rtc_close :: "rtc_conn \<Rightarrow> net \<Rightarrow> net" where
  "rtc_close r n = chan_drop (rc_chan r) (rtc_cleanup r n)"

end
