(* ===== verification/Links.thy ===== *)
theory Links
  imports Link_Ws Link_Rtc Delivery
begin

text \<open>
  All link threads together. Each thread has a signature: its connection id, the channel it
  reads and the peer it serves, if any. \<open>links_ok\<close> says that every sender registered in
  \<open>ws_conns\<close> belongs to a running thread that serves that peer, so that it can be sent to.
\<close>

section \<open>Ownership of the registered senders\<close>

type_synonym link_sig = "u64 \<times> nat \<times> string option"

definition links_ok :: "net \<Rightarrow> link_sig list \<Rightarrow> bool" where
  "links_ok n sigs =
     (distinct (map (\<lambda>x. fst (snd x)) sigs) \<and>
      (\<forall>x \<in> set sigs. fst (snd x) \<in> dom (hm_get (chans n))) \<and>
      (\<forall>c \<in> dom (hm_get (chans n)). c < next_chan n) \<and>
      (\<forall>k i c. hm_get (ws_conns n) k = Some (i, c) \<longrightarrow> (i, c, Some k) \<in> set sigs))"

lemma links_ok_entry: "links_ok n sigs \<Longrightarrow> hm_get (ws_conns n) k = Some (i, c) \<Longrightarrow> (i, c, Some k) \<in> set sigs"
  by (simp add: links_ok_def)

lemma links_ok_fresh:
  assumes "links_ok n sigs" "x \<in> set sigs"
  shows "fst (snd x) < next_chan n" "fst (snd x) \<in> dom (hm_get (chans n))"
  using assms by (auto simp: links_ok_def)

lemma links_ok_guarded: "guarded n n' \<Longrightarrow> links_ok n sigs \<Longrightarrow> links_ok n' sigs"
  by (simp add: links_ok_def guarded_def hm_keys_dom [symmetric])

lemma links_ok_open:
  assumes "links_ok n sigs" "new_channel n = (c, n')"
  shows "links_ok n' ((i, c, None) # sigs)"
proof -
  have c: "c = next_chan n" and n': "n' = n\<lparr>next_chan := Suc c, chans := hm_insert c [] (chans n)\<rparr>"
    using assms(2) by (auto simp: new_channel_def Let_def)
  have new: "\<forall>x \<in> set sigs. fst (snd x) \<noteq> c"
    using links_ok_fresh(1) [OF assms(1)] c by (metis less_irrefl)
  have d: "dom (hm_get (chans n')) = insert c (dom (hm_get (chans n)))"
    by (simp add: n' hm_get_fun_insert)
  show ?thesis
    unfolding links_ok_def d
  proof (intro conjI)
    show "distinct (map (\<lambda>x. fst (snd x)) ((i, c, None) # sigs))"
      using assms(1) new by (auto simp: links_ok_def)
    show "\<forall>x \<in> set ((i, c, None) # sigs). fst (snd x) \<in> insert c (dom (hm_get (chans n)))"
      using links_ok_fresh(2) [OF assms(1)] by simp
    show "\<forall>d \<in> insert c (dom (hm_get (chans n))). d < next_chan n'"
      using assms(1) by (simp add: links_ok_def n' c less_SucI)
    show "\<forall>k j d. hm_get (ws_conns n') k = Some (j, d) \<longrightarrow> (j, d, Some k) \<in> set ((i, c, None) # sigs)"
      using assms(1) by (simp add: links_ok_def n')
  qed
qed

lemma links_ok_other:
  assumes "links_ok n (pre @ (i, c, p) # post)" "x \<in> set (pre @ post)"
  shows "fst (snd x) \<noteq> c"
  using assms by (force simp: links_ok_def)

lemma links_ok_register:
  assumes "links_ok n (pre @ (i, c, p) # post)" "p = None \<or> p = Some k"
  shows "links_ok (n\<lparr>ws_conns := hm_insert k (i, c) (ws_conns n)\<rparr>) (pre @ (i, c, Some k) # post)"
  using assms by (fastforce simp: links_ok_def)

lemma links_ok_drop:
  assumes ok: "links_ok n (pre @ (i, c, p) # post)"
    and free: "\<And>k j. hm_get (ws_conns n) k \<noteq> Some (j, c)"
  shows "links_ok (chan_drop c n) (pre @ post)"
proof -
  have c: "fst (snd x) \<noteq> c" if "x \<in> set (pre @ post)" for x
    by (rule links_ok_other [OF ok that])
  have "(j, d, Some k) \<in> set (pre @ post)" if "hm_get (ws_conns n) k = Some (j, d)" for k j d
    using ok that free [of k j] by (fastforce simp: links_ok_def)
  then show ?thesis
    using ok c by (fastforce simp: links_ok_def chan_drop_def hm_get_fun_remove)
qed

text \<open>Taking out one's own entry leaves no entry with the thread's channel.\<close>

definition unregister :: "string option \<Rightarrow> u64 \<Rightarrow> net \<Rightarrow> net" where
  "unregister p i n =
     (case p of
        None \<Rightarrow> n
      | Some k \<Rightarrow> if map_option fst (hm_get (ws_conns n) k) = Some i
                 then n\<lparr>ws_conns := hm_remove k (ws_conns n)\<rparr> else n)"

lemma links_ok_unregister:
  assumes ok: "links_ok n (pre @ (i, c, p) # post)"
  shows "links_ok (unregister p i n) (pre @ (i, c, p) # post)"
    and "hm_get (ws_conns (unregister p i n)) k \<noteq> Some (j, c)"
proof -
  have "links_ok (n\<lparr>ws_conns := hm_remove k (ws_conns n)\<rparr>) sigs" if "links_ok n sigs" for k sigs
    using that by (simp add: links_ok_def)
  then show "links_ok (unregister p i n) (pre @ (i, c, p) # post)"
    using ok by (cases p) (auto simp: unregister_def)
  have mine: "j = i \<and> p = Some k" if "hm_get (ws_conns n) k = Some (j, c)" for j k
  proof -
    have "(j, c, Some k) \<in> set (pre @ (i, c, p) # post)" by (rule links_ok_entry [OF ok that])
    moreover have "(j, c, Some k) \<notin> set (pre @ post)"
      using links_ok_other [OF ok, of "(j, c, Some k)"] by auto
    ultimately show ?thesis by simp
  qed
  show "hm_get (ws_conns (unregister p i n)) k \<noteq> Some (j, c)"
  proof
    assume h: "hm_get (ws_conns (unregister p i n)) k = Some (j, c)"
    then have "hm_get (ws_conns n) k = Some (j, c)"
      by (auto simp: unregister_def split: option.splits if_splits)
    with mine have "j = i" "p = Some k" by blast+
    with h \<open>hm_get (ws_conns n) k = Some (j, c)\<close> show False by (simp add: unregister_def)
  qed
qed

lemma links_ok_close:
  assumes "links_ok n (pre @ (i, c, p) # post)" "guarded (unregister p i n) n'"
  shows "links_ok (chan_drop c n') (pre @ post)"
proof (rule links_ok_drop)
  show "links_ok n' (pre @ (i, c, p) # post)"
    by (rule links_ok_guarded [OF assms(2) links_ok_unregister(1) [OF assms(1)]])
  show "hm_get (ws_conns n') k \<noteq> Some (j, c)" for k j
    using links_ok_unregister(2) [OF assms(1)] assms(2) by (simp add: guarded_def)
qed

section \<open>Every thread step keeps ownership\<close>

abbreviation ws_sig :: "ws_conn \<Rightarrow> link_sig" where
  "ws_sig w \<equiv> (wc_id w, wc_chan w, wc_peer w)"

abbreviation punch_sig :: "punch_conn \<Rightarrow> link_sig" where
  "punch_sig p \<equiv> (pc_id p, pc_chan p, Some (pc_node p))"

definition rtc_sig :: "rtc_conn \<Rightarrow> link_sig" where
  "rtc_sig r = (rc_id r, rc_chan r, if rc_registered r then Some (rc_node r) else None)"

lemma guarded_touch_drop: "guarded n (touch_live e k n)" "guarded n (drop_live k n)"
  by (auto simp: touch_live_def drop_live_def world_simps guarded_def split: option.splits)

lemma guarded_drain: "hm_get (chans n) c = Some q \<Longrightarrow> guarded n (n\<lparr>chans := hm_insert c r (chans n)\<rparr>)"
  by (simp add: guarded_def hm_keys_insert_old)

lemma ws_flush_guarded: "ws_flush ok c n = (s, d, n') \<Longrightarrow> guarded n n'"
  by (auto simp: ws_flush_def Let_def split: option.splits prod.splits dest: guarded_drain)

lemma ws_start_links:
  assumes "links_ok n sigs" "ws_start e n = (h, w, n')"
  shows "links_ok n' (ws_sig w # sigs)"
proof -
  obtain c n1 where c: "new_channel n = (c, n1)" by (cases "new_channel n")
  have "links_ok (n1\<lparr>ws_seq := x\<rparr>) s" if "links_ok n1 s" for x s
    using that by (simp add: links_ok_def)
  then show ?thesis
    using assms links_ok_open [OF assms(1) c] by (auto simp: ws_start_def c Let_def)
qed

text \<open>A peer announces one name: no second greeting under another.\<close>

definition first_greeting :: "env \<Rightarrow> ws_conn \<Rightarrow> ws_read \<Rightarrow> bool" where
  "first_greeting e w r =
     (case r of
        ReadText t \<Rightarrow>
          (case frame_from_str e t of
             Some (Hello k _) \<Rightarrow> wc_peer w = None \<or> wc_peer w = Some k
           | _ \<Rightarrow> True)
      | _ \<Rightarrow> True)"

lemma ws_hello_links:
  assumes "links_ok n (pre @ ws_sig w # post)" "ws_hello e w k n = (b, w', n')"
    "wc_peer w = None \<or> wc_peer w = Some k"
  shows "links_ok n' (pre @ ws_sig w' # post)"
proof (cases "hm_contains (ws_conns n) k")
  case False
  let ?n1 = "n\<lparr>ws_conns := hm_insert k (wc_id w, wc_chan w) (ws_conns n)\<rparr>"
  have "links_ok ?n1 (pre @ (wc_id w, wc_chan w, Some k) # post)"
    by (rule links_ok_register [OF assms(1,3)])
  moreover have "guarded ?n1 (mark_live e k Ws None (emit (WsConnected k) ?n1))"
    by (rule guarded_trans [OF _ mark_live_contract(2)]) (simp add: guarded_def emit_def)
  ultimately have "links_ok (mark_live e k Ws None (emit (WsConnected k) ?n1))
      (pre @ (wc_id w, wc_chan w, Some k) # post)"
    by (rule links_ok_guarded [rotated])
  then show ?thesis using assms(2) False by (auto simp: ws_hello_def Let_def)
qed (use assms in \<open>auto simp: ws_hello_def\<close>)

lemma ws_on_read_links:
  assumes "links_ok n (pre @ ws_sig w # post)" "ws_on_read e w r n = (b, w', n')" "first_greeting e w r"
  shows "links_ok n' (pre @ ws_sig w' # post)"
  using assms
  by (cases r) (auto simp: first_greeting_def split: option.splits ws_frame.splits
      intro: ws_hello_links links_ok_guarded [OF handle_incoming_guarded])

lemma ws_turn_links:
  assumes "links_ok n (pre @ ws_sig w # post)" "ws_turn e w r ok n = (b, w', s, n')" "first_greeting e w r"
  shows "links_ok n' (pre @ ws_sig w' # post)"
  using assms(2) ws_on_read_links [OF assms(1) _ assms(3)] links_ok_guarded [OF ws_flush_guarded]
  by (auto simp: ws_turn_def Let_def split: prod.splits bool.splits)

lemma ws_close_links:
  assumes "links_ok n (pre @ ws_sig w # post)"
  shows "links_ok (ws_close w n) (pre @ post)"
proof -
  have "\<exists>n'. ws_close w n = chan_drop (wc_chan w) n' \<and> guarded (unregister (wc_peer w) (wc_id w) n) n'"
    using guarded_trans [OF _ guarded_touch_drop(2)]
    by (auto simp: ws_close_def ws_unregister_def ws_finish_def unregister_def owns_def Let_def
        emit_contract split: option.splits)
  then show ?thesis using links_ok_close [OF assms] by auto
qed

lemma punch_start_links:
  assumes "links_ok n sigs" "punch_start e now a k n = (p, n')"
  shows "links_ok n' (case p of None \<Rightarrow> sigs | Some p \<Rightarrow> punch_sig p # sigs)"
proof -
  obtain c n1 where c: "new_channel n = (c, n1)" by (cases "new_channel n")
  define n2 where "n2 = n1\<lparr>punch_seq := punch_seq n1 + 1\<rparr>"
  have ok: "links_ok n2 ((i, c, None) # sigs)" for i
    using links_ok_open [OF assms(1) c, of i] by (simp add: links_ok_def n2_def)
  have free: "hm_get (ws_conns n2) k \<noteq> Some (j, c)" for k j
    using assms(1) c by (fastforce simp: links_ok_def new_channel_def Let_def n2_def)
  let ?n3 = "n2\<lparr>ws_conns := hm_insert k (punch_seq n1, c) (ws_conns n2)\<rparr>"
  have "links_ok (chan_drop c n2) sigs"
    using links_ok_drop [of n2 "[]" 0 c None sigs] ok free by simp
  moreover have "links_ok ?n3 ((punch_seq n1, c, Some k) # sigs)"
    using links_ok_register [of n2 "[]" "punch_seq n1" c None sigs k] ok by simp
  then have "links_ok (mark_live e k Punch (Some a) ?n3) ((punch_seq n1, c, Some k) # sigs)"
    by (rule links_ok_guarded [OF mark_live_contract(2)])
  ultimately show ?thesis
    using assms(2) by (auto simp: punch_start_def c Let_def n2_def split: if_splits)
qed

lemma punch_flush_guarded:
  "punch_flush io p n = (s, d, p', n') \<Longrightarrow> guarded n n' \<and> punch_sig p' = punch_sig p"
  by (auto simp: punch_flush_def Let_def split: option.splits prod.splits dest: guarded_drain)

lemma punch_on_dgram_guarded:
  "punch_on_dgram e p r n = Some (s, p', n') \<Longrightarrow> guarded n n' \<and> punch_sig p' = punch_sig p"
  by (auto simp: punch_on_dgram_def Let_def guarded_touch_drop
      split: option.splits prod.splits if_splits ws_frame.splits
      intro: guarded_trans [OF guarded_touch_drop(1) handle_incoming_guarded])

lemma punch_turn_guarded:
  assumes "punch_turn e p i n = Some (b, s, p', n')"
  shows "guarded n n' \<and> punch_sig p' = punch_sig p"
proof -
  have ka: "punch_sig q' = punch_sig q" if "punch_keepalive i q = (k, q')" for q k q'
    using that by (auto simp: punch_keepalive_def split: if_splits)
  show ?thesis
    using assms
    by (auto simp: punch_turn_def Let_def split: prod.splits if_splits option.splits
        dest!: punch_flush_guarded punch_on_dgram_guarded ka intro: guarded_trans)
qed

lemma punch_turn_links:
  "links_ok n (pre @ punch_sig p # post) \<Longrightarrow> punch_turn e p i n = Some (b, s, p', n') \<Longrightarrow>
   links_ok n' (pre @ punch_sig p' # post)"
  by (drule punch_turn_guarded, elim conjE) (simp add: links_ok_guarded)

lemma punch_close_links:
  assumes "links_ok n (pre @ punch_sig p # post)"
  shows "links_ok (punch_close p n) (pre @ post)"
proof -
  have "punch_close p n = chan_drop (pc_chan p) (drop_live (pc_node p) (unregister (Some (pc_node p)) (pc_id p) n))"
    by (simp add: punch_close_def unregister_def Let_def)
  then show ?thesis using links_ok_close [OF assms guarded_touch_drop(2)] by simp
qed

lemma rtc_start_links:
  assumes "links_ok n sigs" "rtc_start k n = (r, n')"
  shows "links_ok n' (rtc_sig r # sigs)"
proof -
  obtain c n1 where c: "new_channel n = (c, n1)" by (cases "new_channel n")
  have "links_ok (n1\<lparr>rtc_seq := x\<rparr>) s" if "links_ok n1 s" for x s
    using that by (simp add: links_ok_def)
  then show ?thesis
    using assms links_ok_open [OF assms(1) c] by (auto simp: rtc_start_def rtc_sig_def c Let_def)
qed

lemma rtc_flush_guarded: "rtc_flush f r n = (s, n') \<Longrightarrow> guarded n n'"
  by (auto simp: rtc_flush_def split: option.splits dest: guarded_drain)

lemma rtc_on_output_links:
  assumes "links_ok n (pre @ rtc_sig r # post)" "rtc_on_output e r x n = (r', n')"
  shows "links_ok n' (pre @ rtc_sig r' # post)"
proof (cases x)
  case (ChannelOpen c)
  have "links_ok (mark_live e (rc_node r) WebRtc None
      (n\<lparr>ws_conns := hm_insert (rc_node r) (rc_id r, rc_chan r) (ws_conns n)\<rparr>))
      (pre @ (rc_id r, rc_chan r, Some (rc_node r)) # post)" if "\<not> rc_registered r"
    by (rule links_ok_guarded [OF mark_live_contract(2) links_ok_register
          [OF assms(1) [unfolded rtc_sig_def]]]) (simp add: that)
  then show ?thesis
    using assms ChannelOpen by (auto simp: rtc_sig_def Let_def split: if_splits)
qed (use assms in \<open>auto split: option.splits ws_frame.splits
      intro: links_ok_guarded [OF handle_incoming_guarded]\<close>)

lemma rtc_pump_links:
  "links_ok n (pre @ rtc_sig r # post) \<Longrightarrow> rtc_pump e r xs n = (r', n') \<Longrightarrow>
   links_ok n' (pre @ rtc_sig r' # post)"
proof (induction xs arbitrary: r n)
  case (Cons x xs)
  obtain r1 n1 where s: "rtc_on_output e r x n = (r1, n1)" by fastforce
  show ?case
    using Cons.IH [OF rtc_on_output_links [OF Cons.prems(1) s]] Cons.prems(2) by (simp add: s)
qed simp

lemma rtc_turn_links:
  assumes "links_ok n (pre @ rtc_sig r # post)" "rtc_turn e r i n = (b, s, r', n')"
  shows "links_ok n' (pre @ rtc_sig r' # post)"
proof (cases "ri_alive i")
  case True
  obtain sent n1 where f: "rtc_flush (ri_channel i) r n = (sent, n1)" by fastforce
  have "rtc_pump e r (ri_outputs i) n1 = (r', n')"
    using assms(2) True by (auto simp: rtc_turn_def f Let_def split: prod.splits)
  then show ?thesis
    by (rule rtc_pump_links [OF links_ok_guarded [OF rtc_flush_guarded [OF f] assms(1)]])
qed (use assms in \<open>auto simp: rtc_turn_def\<close>)

lemma rtc_close_links:
  assumes "links_ok n (pre @ rtc_sig r # post)"
  shows "links_ok (rtc_close r n) (pre @ post)"
proof -
  have "rtc_close r n = chan_drop (rc_chan r) (if rc_registered r
      then drop_live (rc_node r) (unregister (Some (rc_node r)) (rc_id r) n) else n)"
    by (simp add: rtc_close_def rtc_cleanup_def unregister_def Let_def)
  moreover have "guarded (unregister (if rc_registered r then Some (rc_node r) else None) (rc_id r) n)
      (if rc_registered r then drop_live (rc_node r) (unregister (Some (rc_node r)) (rc_id r) n) else n)"
    by (simp add: guarded_touch_drop) (simp add: unregister_def)
  ultimately show ?thesis using links_ok_close [OF assms [unfolded rtc_sig_def]] by simp
qed

end
