(* ===== verification/Link_Delivery.thy ===== *)
theory Link_Delivery
  imports Links
begin

text \<open>
  Messages over persistent links, end to end, and how links displace one another: delivery
  over a WebSocket, delivery over a punched link through chunking and reassembly, and what
  the exits of replaced connections leave behind.
\<close>

section \<open>Delivery over a WebSocket\<close>

definition frame_lib :: "env \<Rightarrow> bool" where
  "frame_lib e = (\<forall>f s. frame_to_string e f = Inr s \<longrightarrow> frame_from_str e s = Some f)"

lemma drain_ok: "(\<forall>k. ok k) \<Longrightarrow> drain ok k q = (frames_of q, False, [])"
  by (induction ok k q rule: drain.induct) auto

lemma frames_of_append [simp]: "frames_of (p @ q) = frames_of p @ frames_of q"
  by (induction p rule: frames_of.induct) auto

text \<open>What \<open>send_payload\<close> put into the link's queue.\<close>

lemma send_over_link:
  assumes "send_payload e s k ''WS'' t n = (Inr (), n')"
  obtains key' pt env n1 f cid c q where "key n = Some key'"
    "plaintext_to_vec e \<lparr>pt_from = s, pt_text = t\<rparr> = Inr pt" "encrypt e key' pt n = (Some env, n1)"
    "frame_to_string e (Msg (e_nonce env) (e_ciphertext env)) = Inr f"
    "hm_get (ws_conns n) k = Some (cid, c)" "hm_get (chans n) c = Some q"
    "n' = n1\<lparr>chans := hm_insert c (q @ [StrMsg f]) (chans n)\<rparr>"
proof (rule send_payload_sealed [OF assms])
  fix key' plaintext env n1 body
  assume *: "key n = Some key'" "plaintext_to_vec e \<lparr>pt_from = s, pt_text = t\<rparr> = Inr plaintext"
    "encrypt e key' plaintext n = (Some env, n1)" "envelope_to_vec e env = Inr body"
    "(if to_uppercase ''WS'' = ''WS'' then send_ws e k env n1
      else send_direct e k (to_uppercase ''WS'') body n1) = (Inr (), n')"
  then have ws: "send_ws e k env n1 = (Inr (), n')" by (simp add: proto_upper)
  obtain f cid c q where f: "frame_to_string e (Msg (e_nonce env) (e_ciphertext env)) = Inr f"
    "hm_get (ws_conns n) k = Some (cid, c)" "hm_get (chans n) c = Some q"
    "n' = n1\<lparr>chans := hm_insert c (q @ [StrMsg f]) (chans n)\<rparr>"
    using ws by (auto simp: send_ws_def chan_send_def encrypt_keeps [OF *(3)]
        split: sum.splits option.splits prod.splits bool.splits if_splits)
  then show thesis using that * by blast
qed

lemma opened_frame_delivery:
  assumes "sealing_lib e" "serde_lib e" "key r = Some k"
    "plaintext_to_vec e \<lparr>pt_from = s, pt_text = t\<rparr> = Inr pt" "encrypt e k pt n = (Some env, n1)"
    "\<not> fst (dispatch e s ip p t r)"
  shows "handle_incoming e \<lparr>e_nonce = e_nonce env, e_ciphertext = e_ciphertext env\<rparr> ip p r =
    effect (chat_of e r s ip p t) (advance r)"
  using sealed_delivery [OF assms] by (cases env) simp

text \<open>A chat message sent over a live WebSocket is delivered. A successful send has put
  one frame at the end of the link's queue; a flush whose writes succeed sends the queue in
  order with that frame last; and the peer's connection, reading it, delivers exactly one
  chat message with the sender's name and text and stays open.\<close>

theorem ws_message_delivered:
  assumes "sealing_lib e" "serde_lib e" "frame_lib e" "key r = key n"
    and sent: "send_payload e s k ''WS'' t n = (Inr (), n')"
    and chat: "\<not> fst (dispatch e s '''' ''WS'' t r)"
  shows "\<exists>f cid c q. hm_get (ws_conns n) k = Some (cid, c) \<and> hm_get (chans n) c = Some q \<and>
     fst (ws_flush (\<lambda>_. True) c n') = frames_of q @ [f] \<and>
     ws_on_read e w (ReadText f) r = (False, w, effect (chat_of e r s '''' ''WS'' t) (advance r))"
proof (rule send_over_link [OF sent])
  fix key' pt env n1 f cid c q
  assume *: "key n = Some key'"
    "plaintext_to_vec e \<lparr>pt_from = s, pt_text = t\<rparr> = Inr pt" "encrypt e key' pt n = (Some env, n1)"
    "frame_to_string e (Msg (e_nonce env) (e_ciphertext env)) = Inr f"
    "hm_get (ws_conns n) k = Some (cid, c)" "hm_get (chans n) c = Some q"
    "n' = n1\<lparr>chans := hm_insert c (q @ [StrMsg f]) (chans n)\<rparr>"
  have "frame_from_str e f = Some (Msg (e_nonce env) (e_ciphertext env))"
    using assms(3) *(4) by (simp add: frame_lib_def)
  then have "ws_on_read e w (ReadText f) r = (False, w, effect (chat_of e r s '''' ''WS'' t) (advance r))"
    using opened_frame_delivery [OF assms(1,2) _ *(2,3) chat] *(1) assms(4) by simp
  moreover have "fst (ws_flush (\<lambda>_. True) c n') = frames_of q @ [f]"
    by (simp add: ws_flush_def *(7) drain_ok)
  ultimately show ?thesis using * by blast
qed

lemma sample_frame_lib: "frame_lib sample_env"
  using sample_frame by (auto simp: frame_lib_def)

theorem ws_message_delivered_witness:
  "\<exists>f. ws_on_read sample_env \<lparr>wc_id = 5, wc_chan = 9, wc_peer = None\<rparr> (ReadText f) sample_net =
     (False, \<lparr>wc_id = 5, wc_chan = 9, wc_peer = None\<rparr>,
      effect (chat_of sample_env sample_net ''alice'' '''' ''WS'' ''hi'') (advance sample_net))"
proof -
  have "send_payload sample_env ''alice'' ''B'' ''WS'' ''hi'' sample_linked =
      (Inr (), snd (send_payload sample_env ''alice'' ''B'' ''WS'' ''hi'' sample_linked))"
    unfolding send_payload_def encrypt_def send_ws_def chan_send_def
    by (simp add: proto_upper sample_linked_def sample_env_def sample_net_def sample_key_def
        sample_seal_def sample_frame_out_def world_simps hm_simps)
  moreover have "\<not> fst (dispatch sample_env ''alice'' '''' ''WS'' ''hi'' sample_net)"
    by (simp add: dispatch_def sample_env_def sample_json_in_def)
  moreover have "key sample_net = key sample_linked" by (simp add: sample_linked_def)
  ultimately show ?thesis
    using ws_message_delivered [OF sample_sealing sample_serde sample_frame_lib] by blast
qed

section \<open>Delivery over a punched link\<close>

fun punch_run :: "env \<Rightarrow> punch_conn \<Rightarrow> (bytes \<times> ipv4 \<times> u16) list \<Rightarrow> net \<Rightarrow> (punch_conn \<times> net) exec" where
  "punch_run e p [] n = Some (p, n)"
| "punch_run e p (d # ds) n =
     (case punch_on_dgram e p (Some d) n of
        None \<Rightarrow> None
      | Some (_, p, n) \<Rightarrow> punch_run e p ds n)"

lemma chunks_of_le: "0 < n \<Longrightarrow> x \<in> set (chunks_of n xs) \<Longrightarrow> length x \<le> n"
proof (induction n xs rule: chunks_of.induct)
  case (1 n xs)
  then show ?case by (subst (asm) chunks_of.simps) (auto split: if_splits)
qed

lemma split_chunks_le: "i < length (split_chunks data) \<Longrightarrow> length (split_chunks data ! i) \<le> 1024"
  using chunks_of_le [of 1024 "split_chunks data ! i" data]
  by (auto simp: split_chunks_def CHUNK_PAYLOAD_def dest: nth_mem)

lemma chunk_not_probe:
  assumes "pkt \<in> set (chunk_pkts m data)"
  shows "take 65535 pkt = pkt" "pkt \<noteq> PUNCH_PING" "pkt \<noteq> PUNCH_PONG"
proof -
  obtain i where i: "i < length (split_chunks data)" "pkt = chunk_pkt m (of_nat (length (split_chunks data))) i (split_chunks data ! i)"
    using assms by (auto simp: own_chunks_of_message own_chunk_def)
  have "length (split_chunks data ! i) \<le> 1024" by (rule split_chunks_le [OF i(1)])
  then have "12 \<le> length pkt" "length pkt \<le> 1036"
    by (auto simp: i(2) chunk_pkt_def CHUNK_MAGIC_def)
  then show "take 65535 pkt = pkt" "pkt \<noteq> PUNCH_PING" "pkt \<noteq> PUNCH_PONG"
    using ping_pong_lengths by auto
qed

lemma punch_run_collect:
  assumes "reasm_run (pc_pending p) pkts = Some (q, replicate (length pkts) None)"
    "\<forall>x \<in> set pkts. take 65535 x = x \<and> x \<noteq> PUNCH_PING \<and> x \<noteq> PUNCH_PONG"
  shows "punch_run e p (map (\<lambda>x. (x, ip, port)) pkts) n = Some (p\<lparr>pc_pending := q\<rparr>, n)"
  using assms
proof (induction pkts arbitrary: p)
  case (Cons x pkts)
  then obtain p' where x: "reasm_feed (pc_pending p) x = Some (p', None)"
    and rest: "reasm_run p' pkts = Some (q, replicate (length pkts) None)"
    by (auto split: option.splits bind_splits)
  have "punch_on_dgram e p (Some (x, ip, port)) n = Some ([], p\<lparr>pc_pending := p'\<rparr>, n)"
    using Cons.prems(2) x by (simp add: punch_on_dgram_def Let_def)
  then show ?case using Cons.IH [of "p\<lparr>pc_pending := p'\<rparr>"] rest Cons.prems(2) by simp
qed simp

lemma punch_run_append:
  "punch_run e p (xs @ ys) n =
     (case punch_run e p xs n of None \<Rightarrow> None | Some (p, n) \<Rightarrow> punch_run e p ys n)"
  by (induction xs arbitrary: p n) (auto split: option.splits)

lemma punch_run_message:
  assumes "pc_pending p = []" "length data \<le> 65535 * 1024" "mset arrived = mset (chunk_pkts m data)"
    "frame_from_str e (bytes_text data) = Some (Msg nonce ct)"
  shows "punch_run e p (map (\<lambda>x. (x, ip, port)) arrived) n =
    Some (p\<lparr>pc_addr := V4 ip port\<rparr>, handle_incoming e \<lparr>e_nonce = nonce, e_ciphertext = ct\<rparr>
      (show_ipv4 ip) ''UDP'' (touch_live e (pc_node p) n))"
proof -
  have set: "set arrived = set (chunk_pkts m data)" using assms(3) by (metis set_mset_mset)
  have len: "length arrived = length (chunk_pkts m data)" using assms(3) by (metis size_mset)
  then have "arrived \<noteq> []" by (auto simp: length_chunk_pkts)
  then obtain pre x where arr: "arrived = pre @ [x]" by (metis rev_exhaust)
  have "send_chunked (\<lambda>_. None :: string option) m data = (chunk_pkts m data, Inr ())"
    by (simp add: send_chunked_def send_pkts_all_ok)
  from chunk_roundtrip_run [OF assms(2) this assms(3)]
  have "reasm_run [] (pre @ [x]) = Some ([], replicate (length pre) None @ [Some data])"
    by (simp add: arr)
  then obtain q outs where q: "reasm_run [] pre = Some (q, outs)" "reasm_feed q x = Some ([], Some data)"
    "outs = replicate (length pre) None"
    by (auto simp: reasm_run_append split: Option.bind_splits)
  have probe: "take 65535 y = y \<and> y \<noteq> PUNCH_PING \<and> y \<noteq> PUNCH_PONG" if "y \<in> set arrived" for y
    using chunk_not_probe that set by blast
  have "punch_run e p (map (\<lambda>x. (x, ip, port)) pre) n = Some (p\<lparr>pc_pending := q\<rparr>, n)"
    by (rule punch_run_collect) (use q assms(1) probe arr in auto)
  moreover have "punch_on_dgram e (p\<lparr>pc_pending := q\<rparr>) (Some (x, ip, port)) n =
      Some ([], p\<lparr>pc_addr := V4 ip port\<rparr>, handle_incoming e \<lparr>e_nonce = nonce, e_ciphertext = ct\<rparr>
        (show_ipv4 ip) ''UDP'' (touch_live e (pc_node p) n))"
    using probe [of x] arr q(2) assms(1,4) by (simp add: punch_on_dgram_def Let_def)
  ultimately show ?thesis by (simp add: arr punch_run_append)
qed

text \<open>C4: a chat message sent over a punched link is delivered whatever the order in which its
  datagrams arrive. A successful send queues one frame; a flush whose sends succeed cuts it
  into chunks with the link's next message id; and the peer's driver, fed those chunks in any
  order, refreshes the link and delivers exactly one chat message with the sender's name and
  text, with nothing left in its reassembler. The frame may have up to 65535 chunks.\<close>

theorem punched_message_delivered:
  assumes "sealing_lib e" "serde_lib e" "frame_lib e" "key r = key n"
    and sent: "send_payload e s k ''WS'' t n = (Inr (), n')"
    and link: "hm_get (ws_conns n) k = Some (pc_id p, pc_chan p)" "hm_get (chans n) (pc_chan p) = Some []"
    and flush: "punch_flush (\<lambda>_ _. None) p n' = (pkts, dead, p', n'')"
    and short: "length pkts \<le> 65535" and arrived: "mset arrived = mset pkts"
    and fresh: "pc_pending pr = []"
    and chat: "\<not> fst (dispatch e s (show_ipv4 ip) ''UDP'' t (touch_live e (pc_node pr) r))"
  shows "punch_run e pr (map (\<lambda>x. (x, ip, port)) arrived) r =
     Some (pr\<lparr>pc_addr := V4 ip port\<rparr>, let r = touch_live e (pc_node pr) r
       in effect (chat_of e r s (show_ipv4 ip) ''UDP'' t) (advance r))"
proof (rule send_over_link [OF sent])
  fix key' pt env n1 f cid c q
  assume *: "key n = Some key'"
    "plaintext_to_vec e \<lparr>pt_from = s, pt_text = t\<rparr> = Inr pt" "encrypt e key' pt n = (Some env, n1)"
    "frame_to_string e (Msg (e_nonce env) (e_ciphertext env)) = Inr f"
    "hm_get (ws_conns n) k = Some (cid, c)" "hm_get (chans n) c = Some q"
    "n' = n1\<lparr>chans := hm_insert c (q @ [StrMsg f]) (chans n)\<rparr>"
  have "c = pc_chan p" "q = []" using * link by auto
  then have pkts: "pkts = chunk_pkts (pc_next_msg p) (str_bytes f)"
    using flush by (simp add: punch_flush_def *(7) send_chunked_def send_pkts_all_ok Let_def)
  have "length (split_chunks (str_bytes f)) \<le> 65535" using short by (simp add: pkts length_chunk_pkts)
  then have size: "length (str_bytes f) \<le> 65535 * 1024"
    by (simp add: length_split_chunks del: length_str_bytes)
  have "frame_from_str e (bytes_text (str_bytes f)) = Some (Msg (e_nonce env) (e_ciphertext env))"
    using assms(3) *(4) by (simp add: frame_lib_def)
  from punch_run_message [OF fresh size arrived [unfolded pkts] this]
  have run: "punch_run e pr (map (\<lambda>x. (x, ip, port)) arrived) r =
    Some (pr\<lparr>pc_addr := V4 ip port\<rparr>, handle_incoming e
      \<lparr>e_nonce = e_nonce env, e_ciphertext = e_ciphertext env\<rparr>
      (show_ipv4 ip) ''UDP'' (touch_live e (pc_node pr) r))" .
  have "key (touch_live e (pc_node pr) r) = Some key'"
    using guarded_touch_drop(1) [of r e "pc_node pr"] *(1) assms(4) by (simp add: guarded_def)
  from opened_frame_delivery [OF assms(1,2) this *(2,3) chat]
  show ?thesis by (simp add: run Let_def)
qed

definition sample_punch :: punch_conn where
  "sample_punch = \<lparr>pc_id = 1, pc_chan = 4, pc_node = ''B'', pc_addr = V4 (Ipv4 10 0 0 3) 5,
     pc_last_ka = 0, pc_next_msg = 0, pc_pending = []\<rparr>"

lemma length_bytes_text [simp]: "length (bytes_text b) = length b"
  by (simp add: bytes_text_def)

lemma length_pair_bytes: "length (pair_bytes s t) = 2 * length s + 1 + length t"
  by (simp add: pair_bytes_def)

theorem punched_message_delivered_witness:
  "\<exists>pkts. pkts \<noteq> [] \<and>
     punch_run sample_env sample_punch (map (\<lambda>x. (x, Ipv4 10 0 0 2, 6)) (rev pkts)) sample_net =
     Some (sample_punch\<lparr>pc_addr := V4 (Ipv4 10 0 0 2) 6\<rparr>,
       effect (chat_of sample_env sample_net ''alice'' ''10.0.0.2'' ''UDP'' ''hi'') (advance sample_net))"
proof -
  let ?n = "snd (send_payload sample_env ''alice'' ''B'' ''WS'' ''hi'' sample_linked)"
  have sent: "send_payload sample_env ''alice'' ''B'' ''WS'' ''hi'' sample_linked = (Inr (), ?n)"
    unfolding send_payload_def encrypt_def send_ws_def chan_send_def
    by (simp add: proto_upper sample_linked_def sample_env_def sample_net_def sample_key_def
        sample_seal_def sample_frame_out_def world_simps hm_simps)
  obtain pkts dead p' n'' where flush: "punch_flush (\<lambda>_ _. None) sample_punch ?n = (pkts, dead, p', n'')"
    by (metis prod.collapse)
  have "length pkts \<le> 65535 \<and> pkts \<noteq> []"
  proof (rule send_over_link [OF sent])
    fix key' pt env n1 f cid c q
    assume *: "key sample_linked = Some key'"
      "plaintext_to_vec sample_env \<lparr>pt_from = ''alice'', pt_text = ''hi''\<rparr> = Inr pt"
      "encrypt sample_env key' pt sample_linked = (Some env, n1)"
      "frame_to_string sample_env (Msg (e_nonce env) (e_ciphertext env)) = Inr f"
      "hm_get (ws_conns sample_linked) ''B'' = Some (cid, c)" "hm_get (chans sample_linked) c = Some q"
      "?n = n1\<lparr>chans := hm_insert c (q @ [StrMsg f]) (chans sample_linked)\<rparr>"
    have c: "c = 4" "q = []" "key' = sample_key" "pt = pair_bytes ''alice'' ''hi''"
      using *(1,2,5,6) by (auto simp: sample_linked_def sample_net_def sample_env_def hm_simps)
    have "length (e_nonce env) = 24" "length (e_ciphertext env) = 56 + length pt"
      using *(3) by (auto simp: c encrypt_def draw_bytes_def sample_env_def sample_seal_def sample_key_def)
    then have "length f = 1 + (2 * 24 + 1 + (56 + 13))"
      using *(4) by (auto simp: sample_env_def sample_frame_out_def length_pair_bytes c)
    moreover have "pkts = chunk_pkts 0 (str_bytes f)"
      using flush by (simp add: punch_flush_def sample_punch_def *(7) c send_chunked_def
          send_pkts_all_ok Let_def)
    ultimately have "length pkts = 1" by (simp add: length_chunk_pkts length_split_chunks)
    then show ?thesis by auto
  qed
  moreover have "hm_get (ws_conns sample_linked) ''B'' = Some (pc_id sample_punch, pc_chan sample_punch)"
    "hm_get (chans sample_linked) (pc_chan sample_punch) = Some []" "pc_pending sample_punch = []"
    by (simp_all add: sample_linked_def sample_punch_def hm_simps)
  moreover have t: "touch_live sample_env (pc_node sample_punch) sample_net = sample_net"
    by (simp add: touch_live_def sample_net_def)
  moreover have "\<not> fst (dispatch sample_env ''alice'' (show_ipv4 (Ipv4 10 0 0 2)) ''UDP'' ''hi'' sample_net)"
    by (simp add: dispatch_def sample_env_def sample_json_in_def)
  moreover have "key sample_net = key sample_linked" by (simp add: sample_linked_def)
  moreover have "show_ipv4 (Ipv4 10 0 0 2) = ''10.0.0.2''" by code_simp
  ultimately show ?thesis
    using punched_message_delivered [OF sample_sealing sample_serde sample_frame_lib, of sample_net
        sample_linked "''alice''" "''B''" "''hi''" ?n sample_punch pkts dead p' n'' "rev pkts" sample_punch
        "Ipv4 10 0 0 2" 6] sent flush
    by (auto simp: Let_def)
qed

section \<open>How connections displace one another\<close>



text \<open>C37: when a WebRTC link replaces a punched one, the end of the old link tears the new one
  down. The old driver stops at its next turn, as it should; its exit leaves the new link's
  sender in place but removes the peer from the live registry; the new driver takes that for
  an eviction, stops at its next turn, and its clean-up takes the sender out as well.\<close>

theorem replaced_punch_link_kills_successor:
  assumes "hm_get (ws_conns n) (pc_node p) = Some (rc_id r, rc_chan r)" "rc_id r \<noteq> pc_id p"
    and "rc_node r = pc_node p" "rc_registered r"
    and "pt_dgram i = None" "punch_turn e p i n = Some (stop, s, p', n')"
    and "ri_alive j" "ri_outputs j = []" "n1 = punch_close p' n'"
  shows "stop \<and> hm_get (ws_conns n1) (pc_node p) = Some (rc_id r, rc_chan r) \<and>
    \<not> hm_contains (p2p_conns n1) (pc_node p) \<and> fst (rtc_turn e r j n1) \<and>
    \<not> hm_contains (ws_conns (rtc_close r n1)) (pc_node p)"
proof -
  have g: "ws_conns n' = ws_conns n" "pc_node p' = pc_node p" "pc_id p' = pc_id p"
    using punch_turn_guarded [OF assms(6)] by (simp_all add: guarded_def)
  have stop: stop
    using assms(1,2,5,6)
    by (auto simp: punch_turn_def punch_flush_def punch_keepalive_def punch_on_dgram_def
        link_current_def Let_def split: option.splits prod.splits if_splits)
  have c: "hm_get (ws_conns n1) (pc_node p) = Some (rc_id r, rc_chan r)"
    "\<not> hm_contains (p2p_conns n1) (pc_node p)"
    using assms(1,2)
    by (auto simp: assms(9) punch_close_def g Let_def chan_drop_def drop_live_def emit_def hm_contains_def)
  have "fst (rtc_turn e r j n1)"
    using assms(3,4,7,8) c
    by (auto simp: rtc_turn_def rtc_flush_def link_current_def Let_def split: option.split)
  moreover have "\<not> hm_contains (ws_conns (rtc_close r n1)) (pc_node p)"
    using assms(3,4) c
    by (simp add: rtc_close_def rtc_cleanup_def chan_drop_def drop_live_def emit_def Let_def hm_contains_def)
  ultimately show ?thesis using stop c by blast
qed

theorem replaced_punch_link_kills_successor_witness:
  "\<exists>n1. hm_get (ws_conns n1) ''B'' = Some (2000000, 8) \<and> \<not> hm_contains (p2p_conns n1) ''B'' \<and>
     \<not> hm_contains (ws_conns (rtc_close \<lparr>rc_id = 2000000, rc_chan = 8, rc_node = ''B'',
       rc_cid = Some 0, rc_registered = True\<rparr> n1)) ''B''"
proof -
  let ?n = "sample_linked\<lparr>ws_conns := [(''B'', (2000000, 8))]\<rparr>"
  let ?r = "\<lparr>rc_id = 2000000, rc_chan = 8, rc_node = ''B'', rc_cid = Some 0, rc_registered = True\<rparr>"
  let ?i = "\<lparr>pt_io = \<lambda>_ _. None, pt_elapsed = 0, pt_now = 0, pt_dgram = None\<rparr>"
  let ?j = "\<lparr>ri_alive = True, ri_channel = \<lambda>_ _. True, ri_outputs = [], ri_failed = False\<rparr>"
  obtain stop s p' n' where t: "punch_turn sample_env sample_punch ?i ?n = Some (stop, s, p', n')"
    using punch_turn_total [of sample_punch sample_env ?i ?n] by (auto simp: sample_punch_def)
  have "hm_get (ws_conns ?n) (pc_node sample_punch) = Some (rc_id ?r, rc_chan ?r)"
    "rc_id ?r \<noteq> pc_id sample_punch" "rc_node ?r = pc_node sample_punch"
    by (simp_all add: sample_punch_def hm_simps)
  from replaced_punch_link_kills_successor [OF this _ _ t _ _ refl, of ?j] show ?thesis
    by (auto simp: sample_punch_def)
qed

text \<open>C38: closing a WebSocket is not atomic. If the same peer's next connection greets between
  the removal of the old entry and the removal from the live registry, the new connection
  ends up registered and open, and the peer is shown disconnected.\<close>

theorem reconnect_race_hides_link:
  assumes "wc_peer w = Some k" "owns (ws_conns n) k (wc_id w)"
    and "ws_unregister w n = (gone, n1)" "ws_hello e w' k n1 = (stop, w'', n2)"
    and "n3 = ws_finish w gone n2"
  shows "\<not> stop \<and> hm_get (ws_conns n3) k = Some (wc_id w', wc_chan w') \<and> \<not> hm_contains (p2p_conns n3) k"
proof -
  have 1: "gone = Some k" "hm_get (ws_conns n1) k = None"
    using assms(1-3) by (auto simp: ws_unregister_def emit_def)
  have "ws_conns (mark_live e k Ws None m) = ws_conns m" for m
    using mark_live_contract(2) [of m e k Ws None] by (simp add: guarded_def)
  then have 2: "\<not> stop" "hm_get (ws_conns n2) k = Some (wc_id w', wc_chan w')"
    using assms(4) 1 by (auto simp: ws_hello_def Let_def hm_contains_def emit_def)
  show ?thesis
    using 2 by (simp add: assms(5) 1 ws_finish_def chan_drop_def drop_live_def emit_def Let_def hm_contains_def)
qed

theorem reconnect_race_hides_link_witness:
  "\<exists>n3 :: net. hm_get (ws_conns n3) ''B'' = Some (2, 5) \<and> \<not> hm_contains (p2p_conns n3) ''B''"
proof -
  let ?w = "\<lparr>wc_id = 1, wc_chan = 4, wc_peer = Some ''B''\<rparr>"
  let ?w' = "\<lparr>wc_id = 2, wc_chan = 5, wc_peer = None\<rparr>"
  obtain g n1 where 1: "ws_unregister ?w sample_linked = (g, n1)" by fastforce
  obtain s w'' n2 where 2: "ws_hello sample_env ?w' ''B'' n1 = (s, w'', n2)" by (metis prod.collapse)
  have "owns (ws_conns sample_linked) ''B'' (wc_id ?w)"
    by (simp add: owns_def sample_linked_def hm_simps)
  from reconnect_race_hides_link [OF _ this 1 2 refl]
  have "hm_get (ws_conns (ws_finish ?w g n2)) ''B'' = Some (2, 5) \<and>
      \<not> hm_contains (p2p_conns (ws_finish ?w g n2)) ''B''" by simp
  then show ?thesis by blast
qed

end
