(* ===== verification/Conversation.thy ===== *)
theory Conversation
  imports Link_Delivery
begin

text \<open>
  Whole conversations over a persistent link: any interleaving of sends with the flushes of
  the link's thread, and the peer that reads what was written. The locale \<open>carrier\<close> states
  what a link owes its messages, a queue emptied in order and frames handed to the receive
  pipeline; it is interpreted on the WebSocket and on the WebRTC thread.
\<close>

section \<open>Sending and flushing\<close>

datatype 'o act = Say string | Flush 'o

text \<open>
  \<open>flush w c n\<close> is a flush of the queue \<open>c\<close> with the outcomes \<open>w\<close> of its writes: the frames
  written, whether the link died, and the state. A conversation gives the frames written, the
  same flag, and the texts whose send returned success; it ends when the link dies.
\<close>

fun converse ::
  "('o \<Rightarrow> nat \<Rightarrow> net \<Rightarrow> string list \<times> bool \<times> net) \<Rightarrow> env \<Rightarrow> string \<Rightarrow> string \<Rightarrow> nat \<Rightarrow> 'o act list \<Rightarrow> net \<Rightarrow>
   string list \<times> bool \<times> string list \<times> net" where
  "converse flush e s k c [] n = ([], False, [], n)"
| "converse flush e s k c (Say t # as) n =
     (let (r, n) = send_payload e s k ''WS'' t n;
          (ws, dead, ts, n) = converse flush e s k c as n
      in (ws, dead, (if r = Inr () then t # ts else ts), n))"
| "converse flush e s k c (Flush w # as) n =
     (let (sent, dead, n) = flush w c n in
      if dead then (sent, True, [], n)
      else
        let (ws, dead, ts, n) = converse flush e s k c as n in (sent @ ws, dead, ts, n))"

text \<open>The frame \<open>f\<close> is a sealed chat message with the text \<open>t\<close> from \<open>s\<close>.\<close>

definition says :: "env \<Rightarrow> bytes \<Rightarrow> string \<Rightarrow> string \<Rightarrow> string \<Rightarrow> bool" where
  "says e kx s t f = (\<exists>pt env m m'. plaintext_to_vec e \<lparr>pt_from = s, pt_text = t\<rparr> = Inr pt \<and>
     encrypt e kx pt m = (Some env, m') \<and> frame_to_string e (Msg (e_nonce env) (e_ciphertext env)) = Inr f)"

text \<open>What the receiver shows for the texts \<open>ts\<close>, in order.\<close>

definition shows_chats :: "env \<Rightarrow> string \<Rightarrow> string \<Rightarrow> net \<Rightarrow> string list \<Rightarrow> net" where
  "shows_chats e s label r ts = foldl (\<lambda>r t. effect (chat_of e r s '''' label t) (advance r)) r ts"

lemma failed_send_keeps:
  assumes "send_payload e s k ''WS'' t n = (Inl err, n')"
  shows "chans n' = chans n"
  using assms
  by (auto simp: send_payload_def send_ws_def chan_send_def proto_upper encrypt_keeps
      split: option.splits sum.splits prod.splits if_splits bool.splits)

lemma send_keeps:
  assumes "send_payload e s k p t n = (r, n')"
  shows "key n' = key n" "ws_conns n' = ws_conns n"
  using traffic_fields [OF send_payload_traffic [of n e s k p t]] assms by simp_all

lemma dispatch_of_control:
  "control r' = control r \<Longrightarrow> fst (dispatch e s ip p t r') = fst (dispatch e s' ip' p' t r)"
  by (simp add: dispatch_def split: option.split)

lemma said_frame: "frame_lib e \<Longrightarrow> says e kx s t f \<Longrightarrow> \<exists>a b. frame_from_str e f = Some (Msg a b)"
  by (auto simp: says_def frame_lib_def)

section \<open>What a link owes its messages\<close>

locale carrier =
  fixes flush :: "'o \<Rightarrow> nat \<Rightarrow> net \<Rightarrow> string list \<times> bool \<times> net"
    and label :: string and read :: "env \<Rightarrow> string \<Rightarrow> net \<Rightarrow> net"
  assumes flush_queue: "hm_get (chans n) c = Some q \<Longrightarrow> flush w c n = (sent, dead, n') \<Longrightarrow>
      \<exists>lost rest. frames_of q = sent @ lost @ frames_of rest \<and> (\<not> dead \<longrightarrow> lost = []) \<and>
        hm_get (chans n') c = Some rest \<and> key n' = key n \<and> ws_conns n' = ws_conns n"
    and read_frame: "frame_from_str e f = Some (Msg a b) \<Longrightarrow>
      read e f r = handle_incoming e \<lparr>e_nonce = a, e_ciphertext = b\<rparr> '''' label r"
begin

text \<open>The frames written and those still queued are the accepted texts, in order.\<close>

lemma fifo:
  "\<lbrakk>converse flush e s k c acts n = (ws, dead, ts, n'); key n = Some key'; hm_get (ws_conns n) k = Some (cid, c);
    hm_get (chans n) c = Some q; list_all2 (says e key' s) ts0 (frames_of q)\<rbrakk> \<Longrightarrow>
   length ws \<le> length (ts0 @ ts) \<and> list_all2 (says e key' s) (take (length ws) (ts0 @ ts)) ws \<and>
   (\<not> dead \<longrightarrow> (\<exists>q'. hm_get (chans n') c = Some q' \<and>
      list_all2 (says e key' s) (drop (length ws) (ts0 @ ts)) (frames_of q')))"
proof (induction acts arbitrary: n q ts0 ws ts)
  case (Cons a acts)
  show ?case
  proof (cases a)
    case (Say t)
    obtain r n1 where s: "send_payload e s k ''WS'' t n = (r, n1)" by fastforce
    obtain ts1 where c: "converse flush e s k c acts n1 = (ws, dead, ts1, n')"
      and ts: "ts = (if r = Inr () then t # ts1 else ts1)"
      using Cons.prems(1) by (auto simp: Say s split: prod.splits)
    have k1: "key n1 = Some key'" "hm_get (ws_conns n1) k = Some (cid, c)"
      using send_keeps [OF s] Cons.prems(2,3) by simp_all
    show ?thesis
    proof (cases r)
      case (Inl err)
      then have "hm_get (chans n1) c = Some q" using failed_send_keeps s Cons.prems(4) by simp
      from Cons.IH [OF c k1 this Cons.prems(5)] show ?thesis using Inl ts by simp
    next
      case (Inr u)
      with s have "send_payload e s k ''WS'' t n = (Inr (), n1)" by simp
      then show ?thesis
      proof (rule send_over_link)
        fix key1 pt env m f cid1 c1 q1
        assume *: "key n = Some key1" "plaintext_to_vec e \<lparr>pt_from = s, pt_text = t\<rparr> = Inr pt"
          "encrypt e key1 pt n = (Some env, m)" "frame_to_string e (Msg (e_nonce env) (e_ciphertext env)) = Inr f"
          "hm_get (ws_conns n) k = Some (cid1, c1)" "hm_get (chans n) c1 = Some q1"
          "n1 = m\<lparr>chans := hm_insert c1 (q1 @ [StrMsg f]) (chans n)\<rparr>"
        then have same: "key1 = key'" "c1 = c" "q1 = q" using Cons.prems(2-4) by simp_all
        then have "says e key' s t f" using * by (auto simp: says_def)
        then have q: "list_all2 (says e key' s) (ts0 @ [t]) (frames_of (q @ [StrMsg f]))"
          using Cons.prems(5) by (simp add: list_all2_appendI)
        have "hm_get (chans n1) c = Some (q @ [StrMsg f])" using * same by simp
        from Cons.IH [OF c k1 this q] show ?thesis using Inr ts by simp
      qed
    qed
  next
    case (Flush w)
    obtain sent d n1 where f: "flush w c n = (sent, d, n1)" by (metis prod_cases3)
    obtain lost rest where q: "frames_of q = sent @ lost @ frames_of rest" "\<not> d \<longrightarrow> lost = []"
      "hm_get (chans n1) c = Some rest" "key n1 = key n" "ws_conns n1 = ws_conns n"
      using flush_queue [OF Cons.prems(4) f] by blast
    obtain us vs where us: "ts0 = us @ vs" "length us = length sent" "list_all2 (says e key' s) us sent"
      "list_all2 (says e key' s) vs (lost @ frames_of rest)"
      using Cons.prems(5) list_all2_append2 [of "says e key' s" ts0 sent "lost @ frames_of rest"]
      unfolding q(1) by blast
    have front: "list_all2 (says e key' s) (take (length sent) ts0) sent"
      "list_all2 (says e key' s) (drop (length sent) ts0) (lost @ frames_of rest)" "length sent \<le> length ts0"
      using us by simp_all
    show ?thesis
    proof (cases d)
      case True
      then have "ws = sent" "dead" "ts = []" using Cons.prems(1) by (auto simp: Flush f)
      then show ?thesis using front by simp
    next
      case False
      obtain ws1 where c: "converse flush e s k c acts n1 = (ws1, dead, ts, n')" "ws = sent @ ws1"
        using Cons.prems(1) False by (auto simp: Flush f split: prod.splits)
      have "list_all2 (says e key' s) (drop (length sent) ts0) (frames_of rest)" using front(2) q(2) False by simp
      from Cons.IH [OF c(1) _ _ q(3) this] Cons.prems(2,3) q(4,5) front(1,3) c(2)
      show ?thesis by (auto simp: take_add list_all2_appendI add.commute)
    qed
  qed
qed auto

lemma delivered:
  assumes "sealing_lib e" "serde_lib e" "frame_lib e" "key r = Some key'" "list_all2 (says e key' s) ts ws"
    "\<And>t. t \<in> set ts \<Longrightarrow> \<not> fst (dispatch e s '''' label t r)"
  shows "foldl (\<lambda>r f. read e f r) r ws = shows_chats e s label r ts"
  using assms(5,4,6)
proof (induction ts ws arbitrary: r rule: list_all2_induct)
  case (Cons t ts f ws)
  obtain pt env m m' where f: "plaintext_to_vec e \<lparr>pt_from = s, pt_text = t\<rparr> = Inr pt"
    "encrypt e key' pt m = (Some env, m')" "frame_to_string e (Msg (e_nonce env) (e_ciphertext env)) = Inr f"
    using Cons.hyps(1) by (auto simp: says_def)
  have "frame_from_str e f = Some (Msg (e_nonce env) (e_ciphertext env))"
    using assms(3) f(3) by (simp add: frame_lib_def)
  from read_frame [OF this] have one: "read e f r = effect (chat_of e r s '''' label t) (advance r)"
    using opened_frame_delivery [OF assms(1,2) Cons.prems(1) f(1,2), of "''''" label] Cons.prems(2) by simp
  have k: "key (read e f r) = Some key'" and c: "control (read e f r) = control r"
    using Cons.prems(1) by (simp_all add: one effect_def advance_def)
  have "\<not> fst (dispatch e s '''' label x (read e f r))" if "x \<in> set ts" for x
    using Cons.prems(2) [of x] that dispatch_of_control [OF c, of e s "''''" label x s "''''" label] by simp
  from Cons.IH [OF k this] show ?case by (simp add: shows_chats_def one)
qed (simp add: shows_chats_def)

end

section \<open>The links are carriers\<close>

lemma drain_splits:
  "drain ok k q = (sent, dead, rest) \<Longrightarrow>
   \<exists>lost. frames_of q = sent @ lost @ frames_of rest \<and> (\<not> dead \<longrightarrow> lost = [])"
  by (induction ok k q arbitrary: sent rest rule: drain.induct) (fastforce split: if_splits prod.splits)+

interpretation ws_link: carrier ws_flush "''WS''" "\<lambda>e f r. snd (snd (ws_on_read e w (ReadText f) r))" for w
proof unfold_locales
  fix n c q ok sent dead n'
  assume q: "hm_get (chans n) c = Some q" and f: "ws_flush ok c n = (sent, dead, n')"
  obtain rest where r: "drain ok 0 q = (sent, dead, rest)" "n' = n\<lparr>chans := hm_insert c rest (chans n)\<rparr>"
    using f by (auto simp: ws_flush_def q split: prod.splits)
  with drain_splits [OF r(1)] show "\<exists>lost rest. frames_of q = sent @ lost @ frames_of rest \<and>
      (\<not> dead \<longrightarrow> lost = []) \<and> hm_get (chans n') c = Some rest \<and> key n' = key n \<and> ws_conns n' = ws_conns n"
    by auto
qed simp

lemma rtc_write_all: "rtc_write (\<lambda>_. True) k fs = fs"
  by (induction fs arbitrary: k) simp_all

text \<open>A WebRTC flush while the engine has the channel; before the channel opens nothing is written.\<close>

definition rtc_channel_flush :: "rtc_conn \<Rightarrow> nat \<Rightarrow> net \<Rightarrow> string list \<times> bool \<times> net" where
  "rtc_channel_flush r c n = (let (sent, n) = rtc_flush (\<lambda>_ _. True) (r\<lparr>rc_chan := c\<rparr>) n in (sent, False, n))"

interpretation rtc_link: carrier rtc_channel_flush "''UDP''"
  "\<lambda>e f r. snd (rtc_on_output e d (ChannelData (str_bytes f)) r)" for d
proof unfold_locales
  fix n c q r sent dead n'
  assume q: "hm_get (chans n) c = Some q" and f: "rtc_channel_flush r c n = (sent, dead, n')"
  show "\<exists>lost rest. frames_of q = sent @ lost @ frames_of rest \<and>
      (\<not> dead \<longrightarrow> lost = []) \<and> hm_get (chans n') c = Some rest \<and> key n' = key n \<and> ws_conns n' = ws_conns n"
    using f q by (cases "rc_cid r") (auto simp: rtc_channel_flush_def rtc_flush_def rtc_write_all intro: exI [of _ "[]"])
qed simp

section \<open>Properties\<close>

text \<open>C3: a conversation over a WebSocket arrives in order and once. Let one side send any
  texts over its live link, interleaved in any way with turns of the link's thread whose
  writes succeed or fail, and let the peer's connection read what was written. The peer shows
  exactly the first texts whose send had returned success, as many as frames were written, in
  the order they were sent, each once, with the sender's name, and nothing else happens to it.
  If the link has not died, the other accepted texts are still in its queue.\<close>

theorem ws_conversation_delivered:
  assumes "sealing_lib e" "serde_lib e" "frame_lib e" "key n = Some kx" "key r = Some kx"
    and link: "hm_get (ws_conns n) k = Some (cid, c)" "hm_get (chans n) c = Some []"
    and talk: "converse ws_flush e s k c acts n = (ws, dead, ts, n')"
    and chat: "\<forall>t \<in> set ts. \<not> fst (dispatch e s '''' ''WS'' t r)"
  shows "length ws \<le> length ts \<and>
    (\<forall>f \<in> set ws. \<forall>r. fst (ws_on_read e w (ReadText f) r) = False \<and> fst (snd (ws_on_read e w (ReadText f) r)) = w) \<and>
    foldl (\<lambda>r f. snd (snd (ws_on_read e w (ReadText f) r))) r ws = shows_chats e s ''WS'' r (take (length ws) ts) \<and>
    (\<not> dead \<longrightarrow> (\<exists>q. hm_get (chans n') c = Some q \<and> length ws + length (frames_of q) = length ts))"
proof -
  note fifo = ws_link.fifo [OF talk assms(4) link, of "[]", simplified]
  have "foldl (\<lambda>r f. snd (snd (ws_on_read e w (ReadText f) r))) r ws = shows_chats e s ''WS'' r (take (length ws) ts)"
    by (rule ws_link.delivered [OF assms(1-3,5)]) (use fifo chat in \<open>auto dest: in_set_takeD\<close>)
  moreover have "\<exists>a b. frame_from_str e f = Some (Msg a b)" if "f \<in> set ws" for f
    using said_frame [OF assms(3)] fifo that by (fastforce simp: list_all2_conv_all_nth in_set_conv_nth)
  then have "\<forall>f \<in> set ws. \<forall>r. fst (ws_on_read e w (ReadText f) r) = False \<and> fst (snd (ws_on_read e w (ReadText f) r)) = w"
    by fastforce
  ultimately show ?thesis using fifo by (auto dest!: list_all2_lengthD)
qed


section \<open>A conversation\<close>

lemma sample_say:
  assumes "key n = Some sample_key" "hm_get (ws_conns n) ''B'' = Some (1, 4)" "hm_get (chans n) 4 = Some q"
  shows "\<exists>n' f. send_payload sample_env s ''B'' ''WS'' t n = (Inr (), n') \<and> key n' = Some sample_key \<and>
    hm_get (ws_conns n') ''B'' = Some (1, 4) \<and> hm_get (chans n') 4 = Some (q @ [StrMsg f])"
  using assms
  by (simp add: send_payload_def encrypt_def draw_bytes_def send_ws_def chan_send_def proto_upper sample_env_def
      sample_key_def sample_seal_def sample_frame_out_def advance_def Let_def)

lemma sample_link:
  "key sample_linked = Some sample_key" "hm_get (ws_conns sample_linked) ''B'' = Some (1, 4)"
  "hm_get (chans sample_linked) 4 = Some []"
  by (simp_all add: sample_linked_def sample_net_def hm_simps)

lemma sample_chat: "\<not> fst (dispatch sample_env s ip p (CHR ''h'' # t) r)"
  by (simp add: dispatch_def sample_env_def sample_json_in_def)

text \<open>Two texts with a flush after each: both arrive.\<close>

theorem ws_conversation_delivered_witness:
  "\<exists>ws n'. converse ws_flush sample_env ''alice'' ''B'' 4 [Say ''hi'', Flush (\<lambda>_. True), Say ''ho'', Flush (\<lambda>_. True)]
      sample_linked = (ws, False, [''hi'', ''ho''], n') \<and> length ws = 2 \<and>
    foldl (\<lambda>r f. snd (snd (ws_on_read sample_env \<lparr>wc_id = 5, wc_chan = 9, wc_peer = None\<rparr> (ReadText f) r))) sample_net ws =
      shows_chats sample_env ''alice'' ''WS'' sample_net [''hi'', ''ho'']"
proof -
  obtain n1 f1 where s1: "send_payload sample_env ''alice'' ''B'' ''WS'' ''hi'' sample_linked = (Inr (), n1)"
    "key n1 = Some sample_key" "hm_get (ws_conns n1) ''B'' = Some (1, 4)" "hm_get (chans n1) 4 = Some [StrMsg f1]"
    using sample_say [OF sample_link, of "''alice''" "''hi''"] by auto
  define n2 where "n2 = n1\<lparr>chans := hm_insert 4 [] (chans n1)\<rparr>"
  have w1: "ws_flush (\<lambda>_. True) 4 n1 = ([f1], False, n2)" by (simp add: ws_flush_def s1 n2_def)
  have l2: "key n2 = Some sample_key" "hm_get (ws_conns n2) ''B'' = Some (1, 4)" "hm_get (chans n2) 4 = Some []"
    using s1 by (simp_all add: n2_def)
  obtain n3 f2 where s2: "send_payload sample_env ''alice'' ''B'' ''WS'' ''ho'' n2 = (Inr (), n3)"
    "hm_get (chans n3) 4 = Some [StrMsg f2]"
    using sample_say [OF l2, of "''alice''" "''ho''"] by auto
  have w2: "ws_flush (\<lambda>_. True) 4 n3 = ([f2], False, n3\<lparr>chans := hm_insert 4 [] (chans n3)\<rparr>)"
    by (simp add: ws_flush_def s2)
  have c: "converse ws_flush sample_env ''alice'' ''B'' 4 [Say ''hi'', Flush (\<lambda>_. True), Say ''ho'', Flush (\<lambda>_. True)]
      sample_linked = ([f1, f2], False, [''hi'', ''ho''], n3\<lparr>chans := hm_insert 4 [] (chans n3)\<rparr>)"
    by (simp add: s1(1) s2(1) w1 w2 Let_def)
  have "key sample_net = Some sample_key" by (simp add: sample_net_def)
  then show ?thesis
    using ws_conversation_delivered [OF sample_sealing sample_serde sample_frame_lib sample_link(1) _ sample_link(2,3) c, of sample_net] c
    by (simp add: sample_chat)
qed

text \<open>A text is sent before the channel opens, and one after.\<close>

definition sample_rtc :: "nat option \<Rightarrow> rtc_conn" where
  "sample_rtc c = \<lparr>rc_id = 2000000, rc_chan = 4, rc_node = ''B'', rc_cid = c, rc_registered = True\<rparr>"


end
