(* ===== verification/Registry_Client.thy ===== *)
theory Registry_Client
  imports Sample
begin

text \<open>
  The registry's HTTP client (\<open>registry.rs\<close>). A call is a request value given to the
  environment's \<open>http\<close>; the theory models the requests the crate builds, the base URL they go
  to, and what it makes of the replies.
\<close>

section \<open>The base URL\<close>

definition base :: "string \<Rightarrow> string" where
  "base url =
     (let u = trim_end_char (CHR ''/'') (trim url) in
      case find_str ''://'' u of
        Some i \<Rightarrow>
          (let host_start = i + 3;
               host_end = (case find_str ''/'' (drop host_start u) of
                             Some j \<Rightarrow> host_start + j
                           | None \<Rightarrow> length u)
           in take host_end u)
      | None \<Rightarrow> u)"

section \<open>Calls\<close>

definition http_err :: "env \<Rightarrow> http_reply \<Rightarrow> string" where
  "http_err e r =
     (case r of
        HttpStatus code body \<Rightarrow>
          unwrap_or (''server returned HTTP '' @ show_nat (unat code))
            (case json_from_str e body of None \<Rightarrow> None | Some v \<Rightarrow> json_str_at v ''error'')
      | HttpTransport err \<Rightarrow> err
      | HttpOk _ \<Rightarrow> '''')"

definition http_post :: "string \<Rightarrow> string option \<Rightarrow> json \<Rightarrow> http_request" where
  "http_post url auth body =
     \<lparr>h_method = Post, h_url = url, h_timeout = 10, h_auth = auth, h_body = Some body\<rparr>"

definition http_get :: "string \<Rightarrow> nat \<Rightarrow> string option \<Rightarrow> http_request" where
  "http_get url secs auth = \<lparr>h_method = Get, h_url = url, h_timeout = secs, h_auth = auth, h_body = None\<rparr>"

definition bearer :: "string \<Rightarrow> string option" where
  "bearer tok = Some (''Bearer '' @ tok)"

text \<open>A call whose errors are turned into text; its result is the body.\<close>

definition checked_call :: "env \<Rightarrow> http_request \<Rightarrow> net \<Rightarrow> (string + string) \<times> net" where
  "checked_call e q n =
     (case http_call e q n of
        (HttpOk body, n) \<Rightarrow> (Inr body, n)
      | (r, n) \<Rightarrow> (Inl (http_err e r), n))"

definition parse_reply :: "(string \<Rightarrow> string + 'a) \<Rightarrow> (string + string) \<times> net \<Rightarrow> (string + 'a) \<times> net" where
  "parse_reply into_json r = (case r of (Inr body, n) \<Rightarrow> (into_json body, n) | (Inl err, n) \<Rightarrow> (Inl err, n))"

definition drop_reply :: "(string + string) \<times> net \<Rightarrow> (string + unit) \<times> net" where
  "drop_reply r = (case r of (Inr _, n) \<Rightarrow> (Inr (), n) | (Inl err, n) \<Rightarrow> (Inl err, n))"

definition auth_call ::
  "env \<Rightarrow> string \<Rightarrow> string \<Rightarrow> string \<Rightarrow> string \<Rightarrow> net \<Rightarrow> (string + token_resp) \<times> net" where
  "auth_call e url path user password n =
     parse_reply (token_from_body e) (checked_call e (http_post (base url @ path) None
       (obj [(''username'', JStr user), (''password'', JStr password)])) n)"

definition verify_password_call ::
  "env \<Rightarrow> string \<Rightarrow> string \<Rightarrow> string \<Rightarrow> net \<Rightarrow> (string + bool) \<times> net" where
  "verify_password_call e url user password n =
     (case http_call e (http_post (base url @ ''/auth/verify'') None
         (obj [(''username'', JStr user), (''password'', JStr password)])) n of
        (HttpOk _, n) \<Rightarrow> (Inr True, n)
      | (r, n) \<Rightarrow>
          (case r of
             HttpStatus code _ \<Rightarrow> if code = 401 then (Inr False, n) else (Inl (http_err e r), n)
           | _ \<Rightarrow> (Inl (http_err e r), n)))"

definition json_u16 :: "u16 \<Rightarrow> json" where
  "json_u16 p = JNum (PosInt (ucast p))"

definition registry_register ::
  "env \<Rightarrow> string \<Rightarrow> string \<Rightarrow> identity \<Rightarrow> string option \<Rightarrow> string \<Rightarrow> bool \<Rightarrow> net \<Rightarrow>
   (string + unit) \<times> net" where
  "registry_register e url tok ident fcm platform supports_ipv6 n =
     drop_reply (checked_call e (http_post (base url @ ''/devices/register'') (bearer tok)
       (obj [(''node_id'', JStr (i_node_id ident)), (''name'', JStr (i_name ident)),
         (''ip'', JStr (i_ip ident)), (''tcp_port'', json_u16 (i_tcp_port ident)),
         (''udp_port'', json_u16 (i_udp_port ident)), (''ws_port'', json_u16 (i_ws_port ident)),
         (''fcm_token'', json_opt fcm), (''platform'', JStr platform),
         (''supports_ipv6'', JBool supports_ipv6)])) n)"

definition registry_send_signal ::
  "env \<Rightarrow> string \<Rightarrow> string \<Rightarrow> string \<Rightarrow> string \<Rightarrow> string \<Rightarrow> json \<Rightarrow> net \<Rightarrow> (string + unit) \<times> net" where
  "registry_send_signal e url tok sender recipient kind payload n =
     drop_reply (checked_call e (http_post (base url @ ''/signal'') (bearer tok)
       (obj [(''from'', JStr sender), (''to'', JStr recipient), (''type'', JStr kind),
         (''data'', payload)])) n)"

definition send_selfping :: "env \<Rightarrow> string \<Rightarrow> string \<Rightarrow> string \<Rightarrow> string \<Rightarrow> net \<Rightarrow> (string + unit) \<times> net" where
  "send_selfping e url tok node_id sid n =
     drop_reply (checked_call e (http_post (base url @ ''/signal/selfping'') (bearer tok)
       (obj [(''node_id'', JStr node_id), (''sid'', JStr sid)])) n)"

definition update_device_state ::
  "env \<Rightarrow> string \<Rightarrow> string \<Rightarrow> string \<Rightarrow> bool option \<Rightarrow> bool option \<Rightarrow> string option \<Rightarrow> u16 option \<Rightarrow>
   net \<Rightarrow> (string + unit) \<times> net" where
  "update_device_state e url tok node_id ws_open inbound_blocked refl_ip refl_port n =
     drop_reply (checked_call e (http_post (base url @ ''/devices/state'') (bearer tok)
       (obj [(''node_id'', JStr node_id),
         (''ws_open'', case ws_open of None \<Rightarrow> JNull | Some b \<Rightarrow> JBool b),
         (''inbound_blocked'', case inbound_blocked of None \<Rightarrow> JNull | Some b \<Rightarrow> JBool b),
         (''reflexive_ip'', json_opt refl_ip),
         (''reflexive_udp_port'', case refl_port of None \<Rightarrow> JNull | Some p \<Rightarrow> json_u16 p)])) n)"

definition probe_inbound ::
  "env \<Rightarrow> string \<Rightarrow> string \<Rightarrow> string \<Rightarrow> string list \<Rightarrow> net \<Rightarrow> (string + probe_result) \<times> net" where
  "probe_inbound e url tok node_id checks n =
     parse_reply (probe_from_body e) (checked_call e (http_post (base url @ ''/devices/probe'') (bearer tok)
       (obj [(''node_id'', JStr node_id), (''check'', json_strs checks)])) n)"

definition health_ok :: "env \<Rightarrow> string \<Rightarrow> net \<Rightarrow> bool \<times> net" where
  "health_ok e url n =
     (case http_call e (http_get (base url @ ''/health'') 5 None) n of
        (HttpOk _, n) \<Rightarrow> (True, n)
      | (_, n) \<Rightarrow> (False, n))"

definition registry_fetch ::
  "env \<Rightarrow> string \<Rightarrow> string \<Rightarrow> string \<Rightarrow> net \<Rightarrow> (string + registry_device list) \<times> net" where
  "registry_fetch e url tok exclude n =
     parse_reply (devices_from_body e)
       (checked_call e (http_get (base url @ ''/devices?exclude='' @ exclude) 10 (bearer tok)) n)"

section \<open>Calls only use the network\<close>

lemma http_call_traffic: "http_call e q n = (r, n') \<Longrightarrow> traffic n n'"
  by (auto simp: traffic_def world_simps)

lemma checked_traffic: "checked_call e q n = (r, n') \<Longrightarrow> traffic n n'"
  by (auto simp: checked_call_def split: prod.splits http_reply.splits dest: http_call_traffic)

lemma drop_reply_checked_traffic: "drop_reply (checked_call e q n) = (r, n') \<Longrightarrow> traffic n n'"
  by (auto simp: drop_reply_def split: prod.splits sum.splits dest: checked_traffic)

lemma parse_reply_checked_traffic: "parse_reply f (checked_call e q n) = (r, n') \<Longrightarrow> traffic n n'"
  by (auto simp: parse_reply_def split: prod.splits sum.splits dest: checked_traffic)

lemma registry_traffic:
  "auth_call e url path u p n = (r1, n') \<Longrightarrow> traffic n n'"
  "verify_password_call e url u p n = (r2, n') \<Longrightarrow> traffic n n'"
  "registry_register e url tok i f pl six n = (r3, n') \<Longrightarrow> traffic n n'"
  "registry_send_signal e url tok u v k j n = (r3, n') \<Longrightarrow> traffic n n'"
  "send_selfping e url tok u v n = (r3, n') \<Longrightarrow> traffic n n'"
  "update_device_state e url tok u wo ib ri rp n = (r3, n') \<Longrightarrow> traffic n n'"
  "probe_inbound e url tok u cs n = (r4, n') \<Longrightarrow> traffic n n'"
  "health_ok e url n = (b, n') \<Longrightarrow> traffic n n'"
  "registry_fetch e url tok u n = (r5, n') \<Longrightarrow> traffic n n'"
  by (auto simp: auth_call_def verify_password_call_def registry_register_def
      registry_send_signal_def send_selfping_def update_device_state_def probe_inbound_def
      health_ok_def registry_fetch_def split: prod.splits http_reply.splits if_splits
      dest: http_call_traffic drop_reply_checked_traffic parse_reply_checked_traffic)

section \<open>The base URL is normal\<close>

lemma find_str_prefix: "find_str pat (pat @ s) = Some 0"
  by (subst find_str.simps) simp

lemma find_char_none: "c \<notin> set s \<Longrightarrow> find_str [c] s = None"
  by (induction s) (subst find_str.simps, auto)+

lemma find_char_first: "c \<notin> set s \<Longrightarrow> find_str [c] (s @ c # t) = Some (length s)"
  by (induction s) (subst find_str.simps, auto)+

lemma find_scheme:
  assumes "CHR '':'' \<notin> set s"
  shows "find_str ''://'' (s @ ''://'' @ t) = Some (length s)"
  using assms by (induction s) (subst find_str.simps, auto)+

lemma trim_end_char_append:
  "t \<noteq> [] \<Longrightarrow> last t \<noteq> c \<Longrightarrow> trim_end_char c (s @ t) = s @ t"
  by (cases t rule: rev_cases) (auto simp: trim_end_char_def)

lemma trim_end_char_tail:
  assumes "h \<noteq> []" "last h \<noteq> c" "tl' = [] \<or> hd tl' = c"
  shows "\<exists>tl''. trim_end_char c (s @ h @ tl') = s @ h @ tl'' \<and> (tl'' = [] \<or> hd tl'' = c)"
proof -
  have *: "\<exists>tl''. rev (dropWhile (\<lambda>d. d = c) (rev (x @ h @ tl'))) = x @ h @ tl'' \<and> (tl'' = [] \<or> hd tl'' = c)"
    if "tl' = [] \<or> hd tl' = c" for x
    using that
  proof (induction tl' rule: rev_induct)
    case Nil
    then show ?case using assms(1,2) by (cases h rule: rev_cases) auto
  next
    case (snoc d ds)
    show ?case
    proof (cases "d = c")
      case True
      then show ?thesis using snoc by (cases ds) auto
    next
      case False
      then show ?thesis using snoc.prems by (intro exI [of _ "ds @ [d]"]) simp
    qed
  qed
  from * [OF assms(3), of s] show ?thesis by (simp add: trim_end_char_def)
qed

lemma base_of_url:
  assumes "trimmed (s @ ''://'' @ h @ t)" "CHR '':'' \<notin> set s" "h \<noteq> []" "CHR ''/'' \<notin> set h"
    "t = [] \<or> hd t = CHR ''/''"
  shows "base (s @ ''://'' @ h @ t) = s @ ''://'' @ h"
proof -
  have "last h \<noteq> CHR ''/''" using assms(3,4) last_in_set by metis
  then obtain t' where t': "trim_end_char (CHR ''/'') ((s @ ''://'') @ h @ t) = (s @ ''://'') @ h @ t'"
    "t' = [] \<or> hd t' = CHR ''/''"
    using trim_end_char_tail [OF assms(3) _ assms(5)] by blast
  have slash: "find_str ''/'' (h @ t') = (if t' = [] then None else Some (length h))"
    using t'(2) find_char_none [OF assms(4)] find_char_first [OF assms(4)] by (cases t') auto
  have u: "trim_end_char (CHR ''/'') (trim (s @ ''://'' @ h @ t)) = s @ ''://'' @ h @ t'"
    using t'(1) trim_trimmed [OF assms(1)] by simp
  have d: "drop (length s + 3) (s @ ''://'' @ h @ t') = h @ t'" by simp
  show ?thesis
    unfolding base_def u Let_def find_scheme [OF assms(2)] option.case d slash by (simp add: numeral_3_eq_3)
qed

text \<open>A server URL is reduced to its scheme, host and port whatever path or slashes follow,
  and the result is a fixed point, so the stored URL can be normalised again by every call.\<close>

theorem base_drops_path:
  assumes "trimmed (s @ ''://'' @ h @ t)" "trimmed (s @ ''://'' @ h)" "CHR '':'' \<notin> set s" "h \<noteq> []"
    "CHR ''/'' \<notin> set h" "t = [] \<or> hd t = CHR ''/''"
  shows "base (s @ ''://'' @ h @ t) = s @ ''://'' @ h \<and> base (base (s @ ''://'' @ h @ t)) = s @ ''://'' @ h"
  using base_of_url [OF assms(1,3-6)] base_of_url [of s h "[]"] assms(2-5) by simp

theorem base_drops_path_witness:
  "base ''http://10.0.0.1:8080/auth/login/'' = ''http://10.0.0.1:8080''"
proof -
  have "trimmed (''http'' @ ''://'' @ ''10.0.0.1:8080'' @ ''/auth/login/'')"
    "trimmed (''http'' @ ''://'' @ ''10.0.0.1:8080'')"
    by (simp_all add: trimmed_printable printable_def)
  from base_drops_path [OF this] show ?thesis by simp
qed

end
