(* ===== verification/Discovery.thy ===== *)
theory Discovery
  imports Sample
begin

text \<open>
  LAN discovery (\<open>discovery.rs\<close>): the destinations of an announcement, the beacon itself and
  one step of the receive loop.
\<close>

definition MCAST_GROUP :: ipv4 where
  "MCAST_GROUP = Ipv4 239 255 42 98"

definition DISCOVERY_PORT :: u16 where
  "DISCOVERY_PORT = 45678"

text \<open>The host bytes of the sweep: \<open>1..=254\<close> without the interface's own.\<close>

definition host_bytes :: "u8 \<Rightarrow> u8 list" where
  "host_bytes own = filter (\<lambda>h. h \<noteq> own) (map of_nat [1..<255])"

fun sweep :: "ipv4 \<Rightarrow> sock_addr list" where
  "sweep (Ipv4 a b c d) =
     (if is_loopback (Ipv4 a b c d) \<or> is_unspecified (Ipv4 a b c d) then []
      else V4 (Ipv4 a b c 255) DISCOVERY_PORT # map (\<lambda>h. V4 (Ipv4 a b c h) DISCOVERY_PORT) (host_bytes d))"

fun mode_addrs :: "iface_mode \<Rightarrow> ipv4 list" where
  "mode_addrs (All addrs) = addrs"
| "mode_addrs (Single ip) = [ip]"

definition lan_targets :: "iface_mode \<Rightarrow> sock_addr list" where
  "lan_targets mode =
     [V4 MCAST_GROUP DISCOVERY_PORT, V4 (Ipv4 255 255 255 255) DISCOVERY_PORT] @
     concat (map sweep (mode_addrs mode))"

text \<open>
  \<open>bind_multicast\<close>: the socket calls in order, each of which fails or not (\<open>ok\<close>); the result
  is the calls made and whether a socket came out. Joins per interface are best effort.
\<close>

datatype mcast_op =
    NewSocket | ReuseAddress | ReusePort | BindAny u16 | Join ipv4 ipv4 | SetInterface ipv4 | SetLoop

fun must_all :: "(mcast_op \<Rightarrow> bool) \<Rightarrow> mcast_op list \<Rightarrow> mcast_op list \<times> bool" where
  "must_all ok [] = ([], True)"
| "must_all ok (x # xs) =
     (if ok x then (let (done, r) = must_all ok xs in (x # done, r)) else ([x], False))"

definition bind_multicast :: "(mcast_op \<Rightarrow> bool) \<Rightarrow> iface_mode \<Rightarrow> mcast_op list \<times> bool" where
  "bind_multicast ok mode =
     (let (first, r1) = must_all ok [NewSocket, ReuseAddress, ReusePort, BindAny DISCOVERY_PORT] in
      if \<not> r1 then (first, False)
      else
        let (joins, r2) = (case mode of
              All addrs \<Rightarrow> (map (\<lambda>v4. Join MCAST_GROUP v4) addrs @ [Join MCAST_GROUP (Ipv4 0 0 0 0)], True)
            | Single iface \<Rightarrow> must_all ok [Join MCAST_GROUP iface, SetInterface iface])
        in if \<not> r2 then (first @ joins, False)
           else (let (loop, r3) = must_all ok [SetLoop] in (first @ joins @ loop, r3)))"

section \<open>Beacons\<close>

definition beacon_of :: "identity \<Rightarrow> bool \<Rightarrow> beacon" where
  "beacon_of ident reply =
     \<lparr>b_node_id = i_node_id ident, b_name = i_name ident, b_tcp_port = i_tcp_port ident,
      b_udp_port = i_udp_port ident, b_ws_port = i_ws_port ident, b_reply = reply\<rparr>"

definition send_beacon :: "env \<Rightarrow> identity \<Rightarrow> bool \<Rightarrow> sock_addr list \<Rightarrow> net \<Rightarrow> net" where
  "send_beacon e ident reply targets n =
     (case beacon_to_vec e (beacon_of ident reply) of
        None \<Rightarrow> n
      | Some payload \<Rightarrow>
          (let n = snd (perform e SetBroadcast n)
           in foldl (\<lambda>n dst. snd (perform e (UdpSend dst payload) n)) n targets))"

definition lan_peer :: "beacon \<Rightarrow> ipv4 \<Rightarrow> peer" where
  "lan_peer b src =
     \<lparr>p_node_id = b_node_id b, p_name = b_name b, p_ip = show_ipv4 src, p_tcp_port = b_tcp_port b,
      p_udp_port = b_udp_port b, p_ws_port = b_ws_port b, p_source = Lan, p_ws_open = False,
      p_inbound_blocked = False, p_reflexive_ip = None, p_reflexive_udp_port = None\<rparr>"

definition emit_peers :: "net \<Rightarrow> net" where
  "emit_peers n = emit (PeersUpdated (map snd (peers n))) n"

definition discovery_recv :: "env \<Rightarrow> (bytes \<times> ipv4) option \<Rightarrow> net \<Rightarrow> net" where
  "discovery_recv e rcv n =
     (case rcv of
        None \<Rightarrow> n
      | Some (dgram, src) \<Rightarrow>
          (case beacon_from_slice e (take 2048 dgram) of
             None \<Rightarrow> n
           | Some b \<Rightarrow>
               if b_node_id b = i_node_id (identity n) then n
               else
                 let n = n\<lparr>peers := hm_insert (b_node_id b) (lan_peer b src) (peers n)\<rparr>;
                     n = emit_peers n
                 in if b_reply b then n
                    else send_beacon e (identity n) True [V4 src DISCOVERY_PORT] n))"

text \<open>\<open>Engine::scan_lan\<close>: three announcements to the same targets.\<close>

definition scan_lan :: "env \<Rightarrow> net \<Rightarrow> net" where
  "scan_lan e n =
     (let ident = identity n;
          targets = lan_targets (iface_mode e (tick n));
          n = advance n
      in foldl (\<lambda>n _. send_beacon e ident False targets n) n [0 ..< 3 :: nat])"

section \<open>Facts\<close>

lemma foldl_perform_traffic: "traffic n (foldl (\<lambda>n d. snd (perform e (f d) n)) n ds)"
  by (rule foldl_traffic) (rule traffic_perform)

lemma send_beacon_traffic: "traffic n (send_beacon e i r ts n)"
  by (auto simp: send_beacon_def Let_def split: option.split
      intro: traffic_trans [OF traffic_perform foldl_perform_traffic])

lemma scan_lan_traffic: "traffic n (scan_lan e n)"
  unfolding scan_lan_def Let_def
  by (rule traffic_trans [OF traffic_advance foldl_traffic]) (rule send_beacon_traffic)

lemma host_bytes_set: "set (host_bytes d) = {h. h \<noteq> 0 \<and> h \<noteq> 255 \<and> h \<noteq> d}"
proof -
  have "(of_nat ` {1..<255} :: u8 set) = {h. h \<noteq> 0 \<and> h \<noteq> 255}"
  proof (intro equalityI subsetI)
    fix h :: u8
    assume "h \<in> of_nat ` {1..<255}"
    then obtain i where "h = of_nat i" "1 \<le> i" "i < 255" by auto
    moreover have "unat (of_nat i :: u8) = i" using calculation by (simp add: unat_of_nat)
    ultimately show "h \<in> {h. h \<noteq> 0 \<and> h \<noteq> 255}" by auto
  next
    fix h :: u8
    assume "h \<in> {h. h \<noteq> 0 \<and> h \<noteq> 255}"
    then have "unat h \<noteq> 0" "unat h \<noteq> 255" "unat h < 256"
      using unat_u8_less [of h] unsigned_word_eqI [of h 255, where ?'a = nat] by (auto simp: unat_eq_0)
    then show "h \<in> of_nat ` {1..<255}" by (intro image_eqI [of _ _ "unat h"]) auto
  qed
  then show ?thesis by (auto simp: host_bytes_def)
qed

section \<open>Properties\<close>

text \<open>C35: an announcement reaches exactly the multicast group, the global broadcast address and,
  for every interface that is neither loopback nor unspecified, every address of its /24 but
  the network address and the interface's own, all on the discovery port.\<close>

theorem lan_targets_exact:
  "set (lan_targets mode) =
     {V4 MCAST_GROUP DISCOVERY_PORT, V4 (Ipv4 255 255 255 255) DISCOVERY_PORT} \<union>
     {V4 (Ipv4 a b c h) DISCOVERY_PORT | a b c d h.
        Ipv4 a b c d \<in> set (mode_addrs mode) \<and> a \<noteq> 127 \<and> Ipv4 a b c d \<noteq> Ipv4 0 0 0 0 \<and>
        h \<noteq> 0 \<and> \<not> (h = d \<and> h \<noteq> 255)}"
proof -
  have one: "set (sweep (Ipv4 a b c d)) = {V4 (Ipv4 a b c h) DISCOVERY_PORT | h.
      a \<noteq> 127 \<and> Ipv4 a b c d \<noteq> Ipv4 0 0 0 0 \<and> h \<noteq> 0 \<and> \<not> (h = d \<and> h \<noteq> 255)}" for a b c d
  proof -
    have hosts: "insert 255 {h :: u8. h \<noteq> 0 \<and> h \<noteq> 255 \<and> h \<noteq> d} = {h. h \<noteq> 0 \<and> \<not> (h = d \<and> h \<noteq> 255)}"
      by auto
    have "set (sweep (Ipv4 a b c d)) = (if a = 127 \<or> Ipv4 a b c d = Ipv4 0 0 0 0 then {}
        else (\<lambda>h. V4 (Ipv4 a b c h) DISCOVERY_PORT) ` insert 255 {h. h \<noteq> 0 \<and> h \<noteq> 255 \<and> h \<noteq> d})"
      by (simp add: is_loopback_def is_unspecified_def host_bytes_set)
    note eq = this [unfolded hosts]
    show ?thesis
    proof (cases "a = 127 \<or> Ipv4 a b c d = Ipv4 0 0 0 0")
      case True
      have none: "set (sweep (Ipv4 a b c d)) = {}" unfolding eq using True by (rule if_P)
      show ?thesis unfolding none using True by blast
    next
      case False
      have image: "set (sweep (Ipv4 a b c d)) =
          (\<lambda>h. V4 (Ipv4 a b c h) DISCOVERY_PORT) ` {h. h \<noteq> 0 \<and> \<not> (h = d \<and> h \<noteq> 255)}"
        unfolding eq using False by (rule if_not_P)
      show ?thesis unfolding image using False by blast
    qed
  qed
  have "set (concat (map sweep ips)) = {V4 (Ipv4 a b c h) DISCOVERY_PORT | a b c d h.
      Ipv4 a b c d \<in> set ips \<and> a \<noteq> 127 \<and> Ipv4 a b c d \<noteq> Ipv4 0 0 0 0 \<and>
      h \<noteq> 0 \<and> \<not> (h = d \<and> h \<noteq> 255)}" for ips
  proof (rule set_eqI)
    fix x
    have "x \<in> set (concat (map sweep ips)) \<longleftrightarrow> (\<exists>ip \<in> set ips. x \<in> set (sweep ip))"
      by (simp del: sweep.simps)
    also have "\<dots> \<longleftrightarrow> (\<exists>a b c d. Ipv4 a b c d \<in> set ips \<and> x \<in> set (sweep (Ipv4 a b c d)))"
      by (metis ipv4.exhaust)
    finally show "x \<in> set (concat (map sweep ips)) \<longleftrightarrow>
        x \<in> {V4 (Ipv4 a b c h) DISCOVERY_PORT | a b c d h.
          Ipv4 a b c d \<in> set ips \<and> a \<noteq> 127 \<and> Ipv4 a b c d \<noteq> Ipv4 0 0 0 0 \<and>
          h \<noteq> 0 \<and> \<not> (h = d \<and> h \<noteq> 255)}"
      unfolding one by blast
  qed
  then show ?thesis unfolding lan_targets_def by simp
qed

definition beacon_lib :: "env \<Rightarrow> bool" where
  "beacon_lib e = (\<forall>b v. beacon_to_vec e b = Some v \<longrightarrow> beacon_from_slice e v = Some b)"

lemma send_beacon_one:
  assumes "beacon_to_vec e (beacon_of i r) = Some v"
  shows "\<exists>x y. out (send_beacon e i r [a] n) = out n @ [Io SetBroadcast x, Io (UdpSend a v) y]"
  using assms by (auto simp: send_beacon_def world_simps)

lemma send_beacon_peers: "peers (send_beacon e i r ts n) = peers n"
  using traffic_fields(3) [OF send_beacon_traffic] .

text \<open>C30: one announcement discovers both directions and stops there. A receiver of the scanner's
  beacon records the scanner, tells its UI and answers once, to the sender's address on the
  discovery port; the scanner, receiving that answer, records the other device and tells its
  UI, and sends nothing more.\<close>

theorem announce_discovers_both:
  assumes "beacon_lib e" "i_node_id (identity a) \<noteq> i_node_id (identity b)"
    and "beacon_to_vec e (beacon_of (identity a) False) = Some hello" "length hello \<le> 2048"
    and "beacon_to_vec e (beacon_of (identity b) True) = Some reply" "length reply \<le> 2048"
    and "b' = discovery_recv e (Some (hello, ip_a)) b" "a' = discovery_recv e (Some (reply, ip_b)) a"
  shows "hm_get (peers b') (i_node_id (identity a)) = Some (lan_peer (beacon_of (identity a) False) ip_a) \<and>
    (\<exists>l x y. out b' = out b @ [Emit (PeersUpdated l), Io SetBroadcast x,
       Io (UdpSend (V4 ip_a DISCOVERY_PORT) reply) y]) \<and>
    hm_get (peers a') (i_node_id (identity b)) = Some (lan_peer (beacon_of (identity b) True) ip_b) \<and>
    (\<exists>l. out a' = out a @ [Emit (PeersUpdated l)])"
proof -
  have h: "beacon_from_slice e hello = Some (beacon_of (identity a) False)"
    and r: "beacon_from_slice e reply = Some (beacon_of (identity b) True)"
    using assms(1,3,5) by (auto simp: beacon_lib_def)
  have ids: "b_node_id (beacon_of i x) = i_node_id i" "b_reply (beacon_of i x) = x" for i x
    by (simp_all add: beacon_of_def)
  let ?m = "emit_peers (b\<lparr>peers := hm_insert (i_node_id (identity a))
    (lan_peer (beacon_of (identity a) False) ip_a) (peers b)\<rparr>)"
  have id: "identity ?m = identity b" by (simp add: emit_peers_def emit_def)
  have b': "b' = send_beacon e (identity b) True [V4 ip_a DISCOVERY_PORT] ?m"
    using assms(2,4) h id by (simp add: assms(7) discovery_recv_def ids Let_def)
  have a': "a' = emit_peers (a\<lparr>peers := hm_insert (i_node_id (identity b))
    (lan_peer (beacon_of (identity b) True) ip_b) (peers a)\<rparr>)"
    using assms(2,6) r by (simp add: assms(8) discovery_recv_def ids Let_def)
  show ?thesis
    using send_beacon_one [OF assms(5), of "V4 ip_a DISCOVERY_PORT" ?m]
    unfolding b' a' send_beacon_peers by (auto simp: emit_peers_def emit_def)
qed

definition sample_bob :: net where
  "sample_bob = sample_net\<lparr>identity := \<lparr>i_node_id = ''B'', i_name = ''bob'', i_ip = ''10.0.0.3'',
     i_tcp_port = 21, i_udp_port = 22, i_ws_port = 23\<rparr>\<rparr>"

theorem announce_discovers_both_witness:
  "p_name (the (hm_get (peers (discovery_recv sample_env
     (Some (sample_beacon_out (beacon_of (identity sample_net) False), Ipv4 10 0 0 2)) sample_bob)) ''A'')) = ''alice''"
proof -
  have lib: "beacon_lib sample_env" by (simp add: beacon_lib_def sample_env_def)
  have v: "beacon_to_vec sample_env b = Some (sample_beacon_out b)" for b by (simp add: sample_env_def)
  have ids: "i_node_id (identity sample_net) = ''A''" "i_node_id (identity sample_bob) = ''B''"
    "i_name (identity sample_net) = ''alice''"
    by (simp_all add: sample_net_def sample_bob_def)
  have len: "length (sample_beacon_out (beacon_of (identity n) r)) \<le> 2048"
    if "n = sample_net \<or> n = sample_bob" for n r
    using that by (auto simp: sample_beacon_out_def pair_bytes_def beacon_of_def sample_net_def sample_bob_def)
  have "hm_get (peers (discovery_recv sample_env
      (Some (sample_beacon_out (beacon_of (identity sample_net) False), Ipv4 10 0 0 2)) sample_bob)) ''A'' =
      Some (lan_peer (beacon_of (identity sample_net) False) (Ipv4 10 0 0 2))"
    using announce_discovers_both [OF lib _ v _ v _ refl refl, of sample_net sample_bob] ids len by simp
  then show ?thesis by (simp add: lan_peer_def beacon_of_def ids)
qed

end
