(* ===== verification/Session.thy ===== *)
theory Session
  imports Registry_Client Discovery
begin

text \<open>
  The session and key operations of the engine (\<open>engine.rs\<close>: \<open>do_auth\<close> to \<open>logout\<close>), its dealings
  with the registry (\<open>refresh_from_server\<close>, \<open>apply_registry_peers\<close>, \<open>network_changed\<close>,
  \<open>firewall_check\<close>, \<open>report_firewall\<close>, \<open>update_ws_open\<close>, \<open>send_signal\<close>, \<open>fcm_selftest\<close>) and the
  manual peers.
\<close>

section \<open>Log-in and keys\<close>

definition do_auth ::
  "env \<Rightarrow> string \<Rightarrow> string \<Rightarrow> string \<Rightarrow> string \<Rightarrow> net \<Rightarrow> (string + unit) \<times> net" where
  "do_auth e path url user password n =
     (if trim url = [] then (Inl ''server URL is required'', n)
      else
        (case auth_call e url path (trim user) password n of
           (Inl err, n) \<Rightarrow> (Inl err, n)
         | (Inr resp, n) \<Rightarrow>
             (let u = base url;
                  n = n\<lparr>server_url := Some u, token := Some (tr_token resp),
                        username := Some (tr_username resp)\<rparr>;
                  n = effect (KvSet ''server_url'' u) n;
                  n = effect (KvSet ''username'' (tr_username resp)) n
              in (Inr (), n))))"

definition auth_login :: "env \<Rightarrow> string \<Rightarrow> string \<Rightarrow> string \<Rightarrow> net \<Rightarrow> (string + unit) \<times> net" where
  "auth_login e url user password n = do_auth e ''/auth/login'' url user password n"

definition auth_register :: "env \<Rightarrow> string \<Rightarrow> string \<Rightarrow> string \<Rightarrow> net \<Rightarrow> (string + unit) \<times> net" where
  "auth_register e url user password n = do_auth e ''/auth/register'' url user password n"

definition dev_login :: "env \<Rightarrow> string \<Rightarrow> string \<Rightarrow> net \<Rightarrow> (string + unit) \<times> net" where
  "dev_login e user passphrase n =
     (let user = trim user in
      if user = [] \<or> trim passphrase = [] then (Inl ''username and encryption key required'', n)
      else
        (case derive_key e passphrase user of
           None \<Rightarrow> (Inl ''failed to derive key'', n)
         | Some k \<Rightarrow> (Inr (), n\<lparr>username := Some user, key := Some k\<rparr>)))"

definition set_encryption_key :: "env \<Rightarrow> string \<Rightarrow> net \<Rightarrow> (string + unit) \<times> net" where
  "set_encryption_key e passphrase n =
     (case username n of
        None \<Rightarrow> (Inl ''log in first'', n)
      | Some user \<Rightarrow>
          if trim passphrase = [] then (Inl ''encryption key is required'', n)
          else
            (case derive_key e passphrase user of
               None \<Rightarrow> (Inl ''failed to derive key'', n)
             | Some k \<Rightarrow> (Inr (), n\<lparr>key := Some k\<rparr>)))"

definition update_encryption_key :: "env \<Rightarrow> string \<Rightarrow> string \<Rightarrow> net \<Rightarrow> (string + unit) \<times> net" where
  "update_encryption_key e passphrase password n =
     (case username n of
        None \<Rightarrow> (Inl ''log in first'', n)
      | Some user \<Rightarrow>
          (case server_url n of
             None \<Rightarrow> (Inl ''no server'', n)
           | Some url \<Rightarrow>
               (case verify_password_call e url user password n of
                  (Inl err, n) \<Rightarrow> (Inl err, n)
                | (Inr False, n) \<Rightarrow> (Inl ''incorrect password'', n)
                | (Inr True, n) \<Rightarrow>
                    if trim passphrase = [] then (Inl ''new encryption key is required'', n)
                    else
                      (case derive_key e passphrase user of
                         None \<Rightarrow> (Inl ''failed to derive key'', n)
                       | Some k \<Rightarrow> (Inr (), n\<lparr>key := Some k\<rparr>)))))"

definition logout :: "net \<Rightarrow> net" where
  "logout n = n\<lparr>token := None, key := None\<rparr>"

definition is_ready :: "net \<Rightarrow> bool" where
  "is_ready n = (token n \<noteq> None \<and> key n \<noteq> None)"

record session_info =
  si_username :: "string option"
  si_server_url :: "string option"
  si_has_key :: bool

definition session_info_of :: "net \<Rightarrow> session_info" where
  "session_info_of n =
     \<lparr>si_username = username n, si_server_url = server_url n, si_has_key = (key n \<noteq> None)\<rparr>"

record saved_session =
  ss_server_url :: string
  ss_username :: string

definition saved_session_of :: "env \<Rightarrow> saved_session" where
  "saved_session_of e =
     \<lparr>ss_server_url = unwrap_or '''' (kv_get e ''server_url''),
      ss_username = unwrap_or '''' (kv_get e ''username'')\<rparr>"

section \<open>Peers from the registry and by hand\<close>

definition registry_peer :: "registry_device \<Rightarrow> peer" where
  "registry_peer d =
     \<lparr>p_node_id = d_node_id d, p_name = d_name d, p_ip = d_ip d, p_tcp_port = d_tcp_port d,
      p_udp_port = d_udp_port d, p_ws_port = d_ws_port d, p_source = Registry,
      p_ws_open = d_ws_open d, p_inbound_blocked = d_inbound_blocked d,
      p_reflexive_ip = d_reflexive_ip d, p_reflexive_udp_port = d_reflexive_udp_port d\<rparr>"

definition apply_registry_peers :: "registry_device list \<Rightarrow> net \<Rightarrow> net" where
  "apply_registry_peers devices n =
     (let kept = filter (\<lambda>(_, p). p_source p \<noteq> Registry) (peers n);
          all = foldl (\<lambda>m d. hm_insert (d_node_id d) (registry_peer d) m) kept devices
      in emit_peers (n\<lparr>peers := all\<rparr>))"

definition refresh_from_server :: "env \<Rightarrow> net \<Rightarrow> (string + unit) \<times> net" where
  "refresh_from_server e n =
     (case (server_url n, token n) of
        (Some url, Some tok) \<Rightarrow>
          (let ident = identity n; fcm = fcm_token e (tick n); n = advance n in
           case registry_register e url tok ident fcm (platform_kind e) False n of
             (Inl err, n) \<Rightarrow> (Inl err, n)
           | (Inr _, n) \<Rightarrow>
               (case registry_fetch e url tok (i_node_id ident) n of
                  (Inl err, n) \<Rightarrow> (Inl err, n)
                | (Inr devices, n) \<Rightarrow> (Inr (), apply_registry_peers devices n)))
      | _ \<Rightarrow> (Inl ''not logged in'', n))"

definition network_changed :: "env \<Rightarrow> string option \<Rightarrow> net \<Rightarrow> net" where
  "network_changed e new_ip n =
     (let (ip, n) = (case new_ip of
            Some s \<Rightarrow> if parse_ipv4 s \<noteq> None then (s, n) else (local_ip e (tick n), advance n)
          | None \<Rightarrow> (local_ip e (tick n), advance n));
          n = n\<lparr>identity := (identity n)\<lparr>i_ip := ip\<rparr>\<rparr>
      in if token n \<noteq> None then snd (refresh_from_server e n) else n)"

definition manual_peer :: "string \<Rightarrow> ipv4 \<Rightarrow> u16 \<Rightarrow> u16 \<Rightarrow> u16 \<Rightarrow> peer" where
  "manual_peer name ip tcp udp ws =
     \<lparr>p_node_id = ''manual:'' @ show_ipv4 ip,
      p_name = (if trim name = [] then show_ipv4 ip else trim name), p_ip = show_ipv4 ip,
      p_tcp_port = tcp, p_udp_port = udp, p_ws_port = ws, p_source = Manual, p_ws_open = False,
      p_inbound_blocked = False, p_reflexive_ip = None, p_reflexive_udp_port = None\<rparr>"

definition add_manual_peer ::
  "string \<Rightarrow> string \<Rightarrow> u16 \<Rightarrow> u16 \<Rightarrow> u16 \<Rightarrow> net \<Rightarrow> (string + unit) \<times> net" where
  "add_manual_peer name ip tcp udp ws n =
     (case parse_ipv4 (trim ip) of
        None \<Rightarrow> (Inl (''invalid IPv4: '' @ ip), n)
      | Some parsed \<Rightarrow>
          (let p = manual_peer name parsed tcp udp ws
           in (Inr (), emit_peers (n\<lparr>peers := hm_insert (p_node_id p) p (peers n)\<rparr>))))"

definition remove_peer :: "string \<Rightarrow> net \<Rightarrow> net" where
  "remove_peer node_id n = emit_peers (n\<lparr>peers := hm_remove node_id (peers n)\<rparr>)"

section \<open>Reachability and signals\<close>

record firewall_status =
  outbound_ok :: bool
  inbound_blocked :: bool

definition firewall_check :: "env \<Rightarrow> net \<Rightarrow> (string + firewall_status) \<times> net" where
  "firewall_check e n =
     (case server_url n of
        None \<Rightarrow> (Inl ''not logged in'', n)
      | Some url \<Rightarrow>
          (case health_ok e url n of
             (False, n) \<Rightarrow> (Inr \<lparr>outbound_ok = False, inbound_blocked = True\<rparr>, n)
           | (True, n) \<Rightarrow>
               (case token n of
                  None \<Rightarrow> (Inl ''not logged in'', n)
                | Some tok \<Rightarrow>
                    (let node_id = i_node_id (identity n) in
                     case probe_inbound e url tok node_id [''tcp'', ''ws''] n of
                       (Inl err, n) \<Rightarrow> (Inl err, n)
                     | (Inr probe, n) \<Rightarrow>
                         (let blocked = (\<not> (tcp_reachable probe \<or> ws_reachable probe));
                              (_, n) = update_device_state e url tok node_id None (Some blocked) None None n
                          in (Inr \<lparr>outbound_ok = True, inbound_blocked = blocked\<rparr>, n))))))"

text \<open>The background half of \<open>report_firewall\<close>, with the credentials it captured.\<close>

definition report_firewall :: "env \<Rightarrow> net \<Rightarrow> net" where
  "report_firewall e n =
     (case (server_url n, token n) of
        (Some url, Some tok) \<Rightarrow>
          (let node_id = i_node_id (identity n) in
           case health_ok e url n of
             (False, n) \<Rightarrow> n
           | (True, n) \<Rightarrow>
               (case probe_inbound e url tok node_id [''tcp'', ''ws''] n of
                  (Inl _, n) \<Rightarrow> n
                | (Inr probe, n) \<Rightarrow>
                    snd (update_device_state e url tok node_id None
                      (Some (\<not> (tcp_reachable probe \<or> ws_reachable probe))) None None n)))
      | _ \<Rightarrow> n)"

definition update_ws_open :: "env \<Rightarrow> bool \<Rightarrow> net \<Rightarrow> (string + unit) \<times> net" where
  "update_ws_open e flag n =
     (case (server_url n, token n) of
        (Some url, Some tok) \<Rightarrow>
          update_device_state e url tok (i_node_id (identity n)) (Some flag) None None None n
      | _ \<Rightarrow> (Inl ''not logged in'', n))"

definition send_signal :: "env \<Rightarrow> string \<Rightarrow> signal \<Rightarrow> net \<Rightarrow> (string + unit) \<times> net" where
  "send_signal e recipient sig n =
     (case (server_url n, token n) of
        (Some url, Some tok) \<Rightarrow>
          (case signal_to_value e sig of
             Inl err \<Rightarrow> (Inl err, n)
           | Inr payload \<Rightarrow>
               registry_send_signal e url tok (i_node_id (identity n)) recipient ''signal'' payload n)
      | _ \<Rightarrow> (Inl ''not logged in'', n))"

definition fcm_selftest :: "env \<Rightarrow> net \<Rightarrow> (string + string) \<times> net" where
  "fcm_selftest e n =
     (case (server_url n, token n) of
        (Some url, Some tok) \<Rightarrow>
          (let sid = new_uuid e (tick n); n = advance n in
           case send_selfping e url tok (i_node_id (identity n)) sid n of
             (Inl err, n) \<Rightarrow> (Inl err, n)
           | (Inr _, n) \<Rightarrow> (Inr sid, n))
      | _ \<Rightarrow> (Inl ''not logged in'', n))"

section \<open>Properties\<close>

text \<open>After a log-out the device is silent. It is not ready, a broadcast sends nothing and
  leaves the state as it is, and every call that needs the registry fails with "not logged
  in" before any request is made.\<close>

theorem logout_silences:
  "let n' = logout n in
     \<not> is_ready n' \<and> broadcast_control e text n' = n' \<and>
     refresh_from_server e n' = (Inl ''not logged in'', n') \<and>
     update_ws_open e b n' = (Inl ''not logged in'', n') \<and>
     send_signal e k sig n' = (Inl ''not logged in'', n') \<and>
     fcm_selftest e n' = (Inl ''not logged in'', n') \<and> report_firewall e n' = n'"
proof -
  have "foldl (\<lambda>n k. send_control_to e k text n) n ks = n" if "key n = None" for n ks
    using that by (induction ks) (simp_all add: send_control_to_def send_payload_def)
  then show ?thesis
    by (simp add: logout_def is_ready_def broadcast_control_def refresh_from_server_def
        update_ws_open_def send_signal_def fcm_selftest_def report_firewall_def Let_def
        split: option.split)
qed

text \<open>C28: the encryption key changes only behind the account password. Whatever
  \<open>update_encryption_key\<close> meets, it either succeeds, and then the registry accepted exactly
  this user's password and the new key is the one derived from the new passphrase for this
  user, or it returns an error and the key is the old one.\<close>

theorem key_update_needs_password:
  "case update_encryption_key e passphrase password n of
     (Inl err, n') \<Rightarrow> key n' = key n
   | (Inr _, n') \<Rightarrow> (\<exists>user url body k.
       username n = Some user \<and> server_url n = Some url \<and>
       http e (tick n) (http_post (base url @ ''/auth/verify'') None
         (obj [(''username'', JStr user), (''password'', JStr password)])) = HttpOk body \<and>
       derive_key e passphrase user = Some k \<and> key n' = Some k)"
proof -
  have verify: "key n' = key n \<and> (r = Inr True \<longleftrightarrow> (\<exists>body. http e (tick n) (http_post (base url @ ''/auth/verify'')
      None (obj [(''username'', JStr user), (''password'', JStr password)])) = HttpOk body))"
    if "verify_password_call e url user password n = (r, n')" for url user r n'
    using that traffic_fields(2) [OF registry_traffic(2) [OF that]]
    by (auto simp: verify_password_call_def http_call_def Let_def split: http_reply.splits if_splits)
  show ?thesis
    using verify
    by (auto simp: update_encryption_key_def split: option.split prod.split sum.split bool.split if_split)
      (fastforce dest: verify)+
qed

text \<open>Two devices set up with the same account get the same key. If both development
  log-ins succeed with user names that differ only in surrounding white space and the same
  passphrase, the derived keys are equal, and setting the passphrase again changes neither.\<close>

theorem same_credentials_same_key:
  assumes "dev_login e u p a = (Inr (), a')" "dev_login e u' p b = (Inr (), b')" "trim u = trim u'"
  shows "key a' = key b' \<and> key a' \<noteq> None \<and> username a' = username b' \<and>
    set_encryption_key e p a' = (Inr (), a') \<and> set_encryption_key e p b' = (Inr (), b')"
  using assms by (auto simp: dev_login_def set_encryption_key_def Let_def split: if_splits option.splits)

theorem same_credentials_same_key_witness:
  "key (snd (dev_login sample_env ''alice'' ''secret'' sample_net)) =
   key (snd (dev_login sample_env ''alice'' ''secret'' sample_bob))"
proof -
  have t: "trim ''alice'' = ''alice''" "trim ''secret'' = ''secret''"
    by (simp_all add: trim_trimmed trimmed_printable printable_def)
  have "dev_login sample_env ''alice'' ''secret'' n =
      (Inr (), snd (dev_login sample_env ''alice'' ''secret'' n))" for n
    by (simp add: dev_login_def t derive_key_def sample_env_def Let_def)
  from same_credentials_same_key [OF this this refl] show ?thesis by blast
qed

text \<open>C39: logging in as another user keeps the previous user's message key. If the second log-in
  succeeds the session is the new user's and ready, but its messages are still sealed with
  the key derived for the first.\<close>

theorem relogin_keeps_old_key:
  assumes "dev_login e u p n = (Inr (), n1)" "auth_login e url v password n1 = (Inr (), n2)"
  shows "is_ready n2 \<and> key n2 = derive_key e p (trim u) \<and>
    (\<exists>resp. token_from_body e resp = Inr \<lparr>tr_token = the (token n2), tr_username = the (username n2)\<rparr>)"
proof -
  have k: "key n1 = derive_key e p (trim u)" "key n1 \<noteq> None"
    using assms(1) by (auto simp: dev_login_def Let_def split: if_splits option.splits)
  obtain resp n' where c: "auth_call e url ''/auth/login'' (trim v) password n1 = (Inr resp, n')"
    using assms(2) by (auto simp: auth_login_def do_auth_def split: if_splits prod.splits sum.splits)
  have "key n' = key n1" using traffic_fields(2) [OF registry_traffic(1) [OF c]] .
  moreover have "key n2 = key n'" "token n2 = Some (tr_token resp)" "username n2 = Some (tr_username resp)"
    using assms(2) c by (auto simp: auth_login_def do_auth_def effect_def Let_def split: if_splits)
  moreover have "\<exists>b. token_from_body e b = Inr resp"
    using c by (auto simp: auth_call_def parse_reply_def split: prod.splits sum.splits)
  ultimately show ?thesis using k by (cases resp) (auto simp: is_ready_def)
qed

theorem relogin_keeps_old_key_witness:
  "\<exists>n2. username n2 = Some ''alice'' \<and> is_ready n2 \<and>
     key n2 = derive_key sample_env ''secret'' ''carol''"
proof -
  have t: "trim ''carol'' = ''carol''" "trim ''secret'' = ''secret''" "trim ''http://h'' = ''http://h''"
    by (simp_all add: trim_trimmed trimmed_printable printable_def)
  have 1: "dev_login sample_env ''carol'' ''secret'' sample_net =
      (Inr (), snd (dev_login sample_env ''carol'' ''secret'' sample_net))"
    by (simp add: dev_login_def t derive_key_def sample_env_def Let_def)
  let ?n = "snd (dev_login sample_env ''carol'' ''secret'' sample_net)"
  have 2: "auth_login sample_env ''http://h'' ''alice'' ''pw'' ?n =
      (Inr (), snd (auth_login sample_env ''http://h'' ''alice'' ''pw'' ?n))"
    by (simp add: auth_login_def do_auth_def t auth_call_def parse_reply_def checked_call_def http_call_def
        sample_env_def Let_def)
  have "username (snd (auth_login sample_env ''http://h'' ''alice'' ''pw'' ?n)) = Some ''alice''"
    by (simp add: auth_login_def do_auth_def t auth_call_def parse_reply_def checked_call_def http_call_def
        sample_env_def effect_def Let_def)
  then show ?thesis using relogin_keeps_old_key [OF 1 2] t(1) by metis
qed

lemma find_snoc:
  "List.find P (xs @ [x]) =
     (case List.find P xs of Some y \<Rightarrow> Some y | None \<Rightarrow> if P x then Some x else None)"
  by (induction xs) auto

lemma foldl_insert_get:
  "hm_get (foldl (\<lambda>m d. hm_insert (f d) (g d) m) m ds) k =
     (case List.find (\<lambda>d. f d = k) (rev ds) of Some d \<Rightarrow> Some (g d) | None \<Rightarrow> hm_get m k)"
proof (induction ds arbitrary: m)
  case (Cons d ds)
  show ?case by (simp add: Cons find_snoc split: option.split)
qed simp

lemma hm_get_filter:
  "hm_ok m \<Longrightarrow> hm_get (filter (\<lambda>(k, v). P v) m) k =
     (case hm_get m k of Some v \<Rightarrow> if P v then Some v else None | None \<Rightarrow> None)"
proof (induction m)
  case (Cons x m)
  obtain j v where x: "x = (j, v)" by (cases x)
  have ok: "hm_ok m" and new: "hm_get m j = None"
    using Cons.prems hm_keys_dom [of m] by (auto simp: x hm_ok_def hm_keys_def domIff)
  show ?case
  proof (cases "j = k")
    case True
    then show ?thesis using Cons.IH [OF ok] new by (simp add: x hm_get_Cons)
  next
    case False
    then show ?thesis using Cons.IH [OF ok] by (simp add: x hm_get_Cons)
  qed
qed simp

text \<open>C29: a registry refresh replaces exactly the registry's own peers. A device in the reply is
  known under its id with what the reply says (the last entry, should an id occur twice), a
  peer found on the LAN or added by hand stays unless the reply has its id, a registry peer
  that is not in the reply is forgotten, and the UI is told the new list.\<close>

theorem registry_refresh_exact:
  assumes "hm_ok (peers n)"
  shows "let n' = apply_registry_peers devices n in
     hm_get (peers n') k =
       (case List.find (\<lambda>d. d_node_id d = k) (rev devices) of
          Some d \<Rightarrow> Some (registry_peer d)
        | None \<Rightarrow> (case hm_get (peers n) k of
            Some p \<Rightarrow> if p_source p \<noteq> Registry then Some p else None
          | None \<Rightarrow> None)) \<and>
     out n' = out n @ [Emit (PeersUpdated (map snd (peers n')))]"
  using assms
  by (simp add: apply_registry_peers_def Let_def foldl_insert_get hm_get_filter emit_peers_def emit_def
      split: option.split)

definition sample_device :: registry_device where
  "sample_device = \<lparr>d_node_id = ''C'', d_name = ''c'', d_ip = ''10.0.0.4'', d_tcp_port = 1, d_udp_port = 2,
     d_ws_port = 3, d_ws_open = True, d_inbound_blocked = False, d_reflexive_ip = None,
     d_reflexive_udp_port = None\<rparr>"

theorem registry_refresh_exact_witness:
  "hm_get (peers (apply_registry_peers [sample_device] sample_net)) ''B'' = Some sample_peer"
proof -
  have "hm_ok (peers sample_net)" by (simp add: sample_net_def hm_ok_def hm_keys_def)
  from registry_refresh_exact [OF this, of "[sample_device]" "''B''"] show ?thesis
    by (simp add: sample_device_def sample_net_def sample_peer_def Let_def hm_simps)
qed

end
