(* ===== verification/Engine.thy ===== *)
theory Engine
  imports Session Delivery
begin

text \<open>
  The engine's own operations (\<open>engine.rs\<close>): start-up, the settings, sending, clipboard and
  feature sharing, and the bodies of its three background loops (clipboard watcher, network
  watcher, heartbeat).
\<close>

section \<open>Start\<close>

text \<open>
  \<open>Engine::start\<close>: the outcomes of the three listener binds with their ports, and of the
  discovery socket, are inputs; the first error ends the start. The loops it spawns are the
  step functions of this development.
\<close>

definition fresh_net :: "env \<Rightarrow> string \<Rightarrow> u16 \<Rightarrow> u16 \<Rightarrow> u16 \<Rightarrow> net" where
  "fresh_net e node_id tcp udp ws =
     \<lparr>identity = \<lparr>i_node_id = node_id, i_name = device_name e, i_ip = local_ip e 1,
        i_tcp_port = tcp, i_udp_port = udp, i_ws_port = ws\<rparr>,
      key = None, peers = [], ws_conns = [], p2p_conns = [], punch_waiters = [], rtc_waiters = [],
      clip_active = False, clip_last = '''', clip_pending = [],
      control = with_defaults (has_clipboard e), installed_apps = ''[]'', subs = [],
      directed_transport = ''UDP'', server_url = None, token = None, username = None,
      chans = [], next_chan = 0, ws_seq = 1, punch_seq = 1000000, rtc_seq = 2000000,
      tick = 2, out = []\<rparr>"

definition engine_start ::
  "env \<Rightarrow> string + u16 \<Rightarrow> string + u16 \<Rightarrow> string + u16 \<Rightarrow> string + unit \<Rightarrow> string + net" where
  "engine_start e tcp udp ws disco =
     (let raw_id = device_id e;
          node_id = (if trim raw_id = [] then new_uuid e 0 else raw_id)
      in case tcp of Inl err \<Rightarrow> Inl err
       | Inr tcp_port \<Rightarrow>
           (case udp of Inl err \<Rightarrow> Inl err
            | Inr udp_port \<Rightarrow>
                (case ws of Inl err \<Rightarrow> Inl err
                 | Inr ws_port \<Rightarrow>
                     (case disco of Inl err \<Rightarrow> Inl err
                      | Inr _ \<Rightarrow> Inr (fresh_net e node_id tcp_port udp_port ws_port)))))"

section \<open>Settings and queries\<close>

definition proto_for :: "net \<Rightarrow> string \<Rightarrow> string" where
  "proto_for n node_id = best_proto (ws_conns n) (directed_transport n) node_id"

definition display_transport :: "net \<Rightarrow> string \<Rightarrow> string \<Rightarrow> string" where
  "display_transport n node_id proto =
     (case hm_get (p2p_conns n) node_id of
        Some c \<Rightarrow> (case l_kind c of Ws \<Rightarrow> ''WS'' | Udp \<Rightarrow> ''UDP'' | Punch \<Rightarrow> ''punch'' | WebRtc \<Rightarrow> ''webrtc'')
      | None \<Rightarrow> proto)"

definition send_control :: "env \<Rightarrow> string \<Rightarrow> string \<Rightarrow> net \<Rightarrow> (string + unit) \<times> net" where
  "send_control e node_id msg n =
     send_payload e (i_name (identity n)) node_id (proto_for n node_id) msg n"

definition set_directed_transport :: "string \<Rightarrow> net \<Rightarrow> net" where
  "set_directed_transport t n =
     n\<lparr>directed_transport := (if eq_ignore_ascii_case (trim t) ''tcp'' then ''TCP'' else ''UDP'')\<rparr>"

definition get_peers :: "net \<Rightarrow> peer list" where
  "get_peers n = map snd (peers n)"

definition current_transport :: "net \<Rightarrow> string" where
  "current_transport n = directed_transport n"

definition current_identity :: "net \<Rightarrow> identity" where
  "current_identity n = identity n"

definition clipboard_sync_enabled :: "net \<Rightarrow> bool" where
  "clipboard_sync_enabled n = clip_active n"

definition engine_generate_key :: "env \<Rightarrow> net \<Rightarrow> string \<times> net" where
  "engine_generate_key e n = generate_key e n"

definition connected_peers :: "net \<Rightarrow> string list" where
  "connected_peers n = hm_keys (p2p_conns n)"

section \<open>Chat\<close>

definition send :: "env \<Rightarrow> string \<Rightarrow> string \<Rightarrow> net \<Rightarrow> (string + string) \<times> net" where
  "send e node_id text n =
     (let sender = unwrap_or (i_name (identity n)) (username n);
          proto = proto_for n node_id
      in case send_payload e sender node_id proto text n of
           (Inl err, n) \<Rightarrow> (Inl err, n)
         | (Inr _, n) \<Rightarrow> (Inr (display_transport n node_id proto), n))"

text \<open>The checks of \<open>connect_ws\<close> before it dials (theory \<open>Connect\<close>): \<open>Inr None\<close> is a link that exists already.\<close>

definition connect_ws_target :: "string \<Rightarrow> net \<Rightarrow> string + (string \<times> u16) option" where
  "connect_ws_target node_id n =
     (case hm_get (peers n) node_id of
        None \<Rightarrow> Inl ''peer not found''
      | Some p \<Rightarrow>
          if p_ws_port p = 0 then Inl ''peer has no WebSocket port''
          else if hm_contains (ws_conns n) node_id then Inr None
          else Inr (Some (p_ip p, p_ws_port p)))"

section \<open>Clipboard\<close>

definition enable_clipboard_sync :: "env \<Rightarrow> net \<Rightarrow> net" where
  "enable_clipboard_sync e n =
     (let (cur, n) = read_clipboard e n;
          n = (case cur of Some c \<Rightarrow> n\<lparr>clip_last := c\<rparr> | None \<Rightarrow> n)
      in n\<lparr>clip_active := True\<rparr>)"

definition disable_clipboard_sync :: "net \<Rightarrow> net" where
  "disable_clipboard_sync n = n\<lparr>clip_active := False\<rparr>"

text \<open>
  \<open>get_clipboard\<close> in two parts: up to the wait for the response (\<open>Inr\<close> of the channel it
  waits on), and after it. An empty queue at the end of the wait is a time-out, or a sender
  that was dropped.
\<close>

definition clip_pull_begin :: "env \<Rightarrow> string \<Rightarrow> net \<Rightarrow> (string + nat) \<times> net" where
  "clip_pull_begin e node_id n =
     (if \<not> has_clipboard e then (Inl ''clipboard not supported on this device'', n)
      else
        let (c, n) = new_channel n;
            n = n\<lparr>clip_pending := hm_insert node_id c (clip_pending n)\<rparr>;
            req = json_to_string e (obj [(''type'', JStr ''clipboard_request''),
              (''from'', JStr (i_node_id (identity n)))])
        in case send_payload e (i_name (identity n)) node_id (proto_for n node_id) req n of
             (Inl err, n) \<Rightarrow>
               (Inl err, chan_drop c (n\<lparr>clip_pending := hm_remove node_id (clip_pending n)\<rparr>))
           | (Inr _, n) \<Rightarrow> (Inr c, n))"

definition clip_pull_end :: "string \<Rightarrow> nat \<Rightarrow> net \<Rightarrow> (string + string) \<times> net" where
  "clip_pull_end node_id c n =
     (let (result, n) = try_recv c n;
          n = n\<lparr>clip_pending := hm_remove node_id (clip_pending n)\<rparr>
      in case result of
           Some (StrMsg content) \<Rightarrow>
             (Inr content, chan_drop c ((effect (ClipSet content) n)\<lparr>clip_last := content\<rparr>))
         | _ \<Rightarrow> (Inl ''no clipboard response from peer (is it reachable and using the same key?)'',
                 chan_drop c n))"

section \<open>Feature sharing\<close>

definition share_notification :: "env \<Rightarrow> string \<Rightarrow> string \<Rightarrow> string option \<Rightarrow> net \<Rightarrow> net" where
  "share_notification e title body app n =
     broadcast_control e (json_to_string e (obj [(''type'', JStr ''notification''), (''title'', JStr title),
       (''body'', JStr body), (''app'', json_opt app), (''from'', JStr (i_node_id (identity n)))])) n"

definition share_call_notification :: "env \<Rightarrow> string \<Rightarrow> string option \<Rightarrow> string \<Rightarrow> net \<Rightarrow> net" where
  "share_call_notification e caller number state n =
     broadcast_control e (json_to_string e (obj [(''type'', JStr ''call_notification''),
       (''caller'', JStr caller), (''number'', json_opt number), (''state'', JStr state),
       (''from'', JStr (i_node_id (identity n)))])) n"

definition share_call_history :: "env \<Rightarrow> string \<Rightarrow> net \<Rightarrow> net" where
  "share_call_history e entries_json n =
     broadcast_control e (json_to_string e (obj [(''type'', JStr ''call_history''),
       (''entries'', unwrap_or JNull (json_from_str e entries_json)),
       (''from'', JStr (i_node_id (identity n)))])) n"

definition set_installed_apps :: "string \<Rightarrow> net \<Rightarrow> net" where
  "set_installed_apps apps n = n\<lparr>installed_apps := apps\<rparr>"

definition request_apps :: "env \<Rightarrow> string \<Rightarrow> net \<Rightarrow> (string + unit) \<times> net" where
  "request_apps e node_id n =
     send_control e node_id (json_to_string e (obj [(''type'', JStr ''apps_request''),
       (''from'', JStr (i_node_id (identity n)))])) n"

definition subscribe_apps :: "env \<Rightarrow> string \<Rightarrow> string \<Rightarrow> net \<Rightarrow> (string + unit) \<times> net" where
  "subscribe_apps e node_id apps_json n =
     send_control e node_id (json_to_string e (obj [(''type'', JStr ''subscribe_apps''),
       (''from'', JStr (i_node_id (identity n))),
       (''apps'', unwrap_or (JArr []) (json_from_str e apps_json))])) n"

definition subscribers :: "string \<Rightarrow> net \<Rightarrow> string list" where
  "subscribers pkg n = map fst (filter (\<lambda>(_, pkgs). pkg \<in> set pkgs) (subs n))"

definition share_app_notification :: "env \<Rightarrow> string \<Rightarrow> string \<Rightarrow> string \<Rightarrow> string \<Rightarrow> net \<Rightarrow> net" where
  "share_app_notification e pkg app title body n =
     (let me = i_node_id (identity n);
          m = json_to_string e (obj [(''type'', JStr ''notification''), (''from'', JStr me),
                (''title'', JStr title), (''body'', JStr body), (''app'', JStr app)])
      in foldl (\<lambda>n k. snd (send_control e k m n)) n (subscribers pkg n))"

section \<open>Background loops\<close>

text \<open>One turn of the clipboard watcher.\<close>

definition clip_watch :: "env \<Rightarrow> net \<Rightarrow> net" where
  "clip_watch e n =
     (if \<not> clip_active n then n
      else
        case read_clipboard e n of
          (None, n) \<Rightarrow> n
        | (Some cur, n) \<Rightarrow>
            if cur = [] then n
            else if clip_last n = cur then n
            else
              broadcast_control e (json_to_string e (obj [(''type'', JStr ''clipboard''),
                (''content'', JStr cur), (''from'', JStr (i_node_id (identity n)))]))
                (n\<lparr>clip_last := cur\<rparr>))"

text \<open>One turn of the network-change watcher.\<close>

definition ip_watch :: "env \<Rightarrow> net \<Rightarrow> net" where
  "ip_watch e n =
     (let current = local_ip e (tick n); n = advance n in
      if i_ip (identity n) \<noteq> current \<and> current \<noteq> ''0.0.0.0''
      then n\<lparr>identity := (identity n)\<lparr>i_ip := current\<rparr>\<rparr> else n)"

text \<open>One turn of the heartbeat; \<open>stale\<close> is the eviction test with its saturating subtraction.\<close>

definition saturating_sub :: "u64 \<Rightarrow> u64 \<Rightarrow> u64" where
  "saturating_sub a b = (if b \<le> a then a - b else 0)"

definition stale :: "u64 \<Rightarrow> u64 \<Rightarrow> bool" where
  "stale now seen_at = (saturating_sub now seen_at > 15)"

definition beat_one :: "env \<Rightarrow> string \<Rightarrow> u64 \<Rightarrow> net \<Rightarrow> string \<times> transport_kind \<times> u64 \<Rightarrow> net" where
  "beat_one e ping now n link =
     (case link of (node_id, kind, seen_at) \<Rightarrow>
        if kind = Ws then n
        else if stale now seen_at then drop_live node_id n
        else send_control_to e node_id ping n)"

definition heartbeat :: "env \<Rightarrow> net \<Rightarrow> net" where
  "heartbeat e n =
     (let me = i_node_id (identity n);
          (now, n) = read_clock e n;
          ping = json_to_string e (obj [(''type'', JStr ''p2p_ping''), (''from'', JStr me)])
      in foldl (beat_one e ping now) n (live_snapshot n))"

section \<open>Contracts\<close>

lemma send_control_traffic: "traffic n (snd (send_control e k m n))"
  by (simp add: send_control_def send_payload_traffic)

lemma send_traffic: "send e k t n = (r, n') \<Longrightarrow> traffic n n'"
  using send_payload_traffic [of n e "unwrap_or (i_name (identity n)) (username n)" k "proto_for n k" t]
  by (auto simp: send_def Let_def split: prod.splits sum.splits)

lemma share_traffic:
  "traffic n (share_notification e a b c n)" "traffic n (share_call_notification e a c b n)"
  "traffic n (share_call_history e a n)" "traffic n (share_app_notification e a b f g n)"
  by (simp_all add: share_notification_def share_call_notification_def share_call_history_def
      share_app_notification_def Let_def broadcast_control_traffic foldl_traffic send_control_traffic)

section \<open>Heartbeat\<close>

lemma stale_nat: "stale now seen_at \<longleftrightarrow> unat seen_at + 15 < unat now"
proof (cases "seen_at \<le> now")
  case True
  then have "unat (now - seen_at) = unat now - unat seen_at" by (rule unat_sub)
  then show ?thesis using True
    by (auto simp: stale_def saturating_sub_def word_less_nat_alt word_le_nat_alt)
qed (auto simp: stale_def saturating_sub_def word_le_nat_alt)

definition doomed :: "u64 \<Rightarrow> string \<times> transport_kind \<times> u64 \<Rightarrow> bool" where
  "doomed now l = (fst (snd l) \<noteq> Ws \<and> stale now (snd (snd l)))"

lemma beat_one_get:
  "hm_get (p2p_conns (beat_one e p now n l)) k =
     (if fst l = k \<and> doomed now l then None else hm_get (p2p_conns n) k)"
proof (cases l)
  case (fields j kind s)
  have "p2p_conns (send_control_to e j p n) = p2p_conns n"
    by (rule traffic_fields(5) [OF send_control_to_traffic])
  then show ?thesis by (simp add: beat_one_def doomed_def fields drop_live_get)
qed

lemma beat_get:
  "hm_get (p2p_conns (foldl (beat_one e p now) n ls)) k =
     (if \<exists>l \<in> set ls. fst l = k \<and> doomed now l then None else hm_get (p2p_conns n) k)"
proof (induction ls arbitrary: n)
  case (Cons l ls)
  show ?case
    unfolding foldl_Cons Cons.IH beat_one_get by auto
qed simp

lemma heartbeat_get:
  assumes "hm_ok (p2p_conns n)"
  shows "hm_get (p2p_conns (heartbeat e n)) k =
     (case hm_get (p2p_conns n) k of
        None \<Rightarrow> None
      | Some c \<Rightarrow> if l_kind c \<noteq> Ws \<and> unat (l_last_seen c) + 15 < unat (now_secs e (tick n))
          then None else Some c)"
proof -
  have mem: "(k, c) \<in> set (p2p_conns n) \<longleftrightarrow> hm_get (p2p_conns n) k = Some c" for c
    by (rule iffI [OF hm_in_set_get [OF assms] hm_get_in_set])
  have "(\<exists>l \<in> set (live_snapshot n). fst l = k \<and> doomed now l) \<longleftrightarrow>
      (\<exists>c. (k, c) \<in> set (p2p_conns n) \<and> l_kind c \<noteq> Ws \<and> stale now (l_last_seen c))" for now
    unfolding live_snapshot_def set_map bex_simps split_beta doomed_def by (simp add: Bex_def)
  then have snap: "(\<exists>l \<in> set (live_snapshot n). fst l = k \<and> doomed now l) \<longleftrightarrow>
      (\<exists>c. hm_get (p2p_conns n) k = Some c \<and> l_kind c \<noteq> Ws \<and> stale now (l_last_seen c))" for now
    by (simp add: mem)
  have adv: "live_snapshot (advance n) = live_snapshot n" "p2p_conns (advance n) = p2p_conns n"
    by (simp_all add: live_snapshot_def advance_def)
  show ?thesis
    unfolding heartbeat_def read_clock_def Let_def prod.case beat_get adv snap stale_nat
    by (cases "hm_get (p2p_conns n) k") auto
qed

text \<open>C17: the heartbeat evicts exactly the stale links. After a turn a peer is in the live
  registry with its entry unchanged if it was there and is on a WebSocket or was heard from in
  the last 15 seconds, and is gone otherwise; a clock that stepped back evicts nobody.\<close>

theorem heartbeat_evicts_exactly_stale:
  assumes "hm_ok (p2p_conns n)"
  shows "hm_get (p2p_conns (heartbeat e n)) k =
     (case hm_get (p2p_conns n) k of
        None \<Rightarrow> None
      | Some c \<Rightarrow> if l_kind c \<noteq> Ws \<and> unat (l_last_seen c) + 15 < unat (now_secs e (tick n))
          then None else Some c)"
  by (rule heartbeat_get [OF assms])

theorem heartbeat_evicts_exactly_stale_witness:
  "hm_get (p2p_conns (heartbeat sample_env (sample_net\<lparr>tick := 100,
     p2p_conns := [(''B'', \<lparr>l_kind = Udp, l_last_seen = 80, l_addr = None\<rparr>)]\<rparr>))) ''B'' = None"
proof -
  let ?n = "sample_net\<lparr>tick := 100, p2p_conns := [(''B'', \<lparr>l_kind = Udp, l_last_seen = 80, l_addr = None\<rparr>)]\<rparr>"
  have "hm_ok (p2p_conns ?n)" by (simp add: hm_ok_def hm_keys_def)
  from heartbeat_evicts_exactly_stale [OF this] show ?thesis
    by (simp add: hm_simps sample_env_def)
qed

section \<open>Clipboard pulls\<close>

lemma send_payload_pending: "send_payload e s k p t n = (r, n') \<Longrightarrow> clip_pending n' = clip_pending n"
  using traffic_fields(9) [OF send_payload_traffic [of n e s k p t]] by simp

text \<open>C27: a clipboard pull completes. If the request could be sent, then the peer's response,
  whatever happened elsewhere to the rest of the state in between, ends the pull with its
  content: the local clipboard is set, the watcher is told not to send it back, and the pull's
  channel and pending entry are gone.\<close>

theorem clipboard_pull_completes:
  assumes "clip_pull_begin e node n = (Inr c, n1)"
    and "msg_kind msg = ''clipboard_response''" "msg_str msg ''from'' = node"
    and "clip_pending m = clip_pending n1" "hm_get (chans m) c = Some []"
  shows "let (r, m') = clip_pull_end node c (clipboard_handle e msg m) in
     r = Inr (msg_str msg ''content'') \<and> clip_last m' = msg_str msg ''content'' \<and>
     out m' = out m @ [ClipSet (msg_str msg ''content'')] \<and>
     hm_get (clip_pending m') node = None \<and> hm_get (chans m') c = None"
proof -
  obtain c' n0 where c': "new_channel n = (c', n0)" by (cases "new_channel n")
  have "hm_get (clip_pending n1) node = Some c"
  proof -
    let ?m = "n0\<lparr>clip_pending := hm_insert node c' (clip_pending n0)\<rparr>"
    have "clip_pending n1 = clip_pending ?m \<and> c = c'"
      using assms(1) send_payload_pending
      by (auto simp: clip_pull_begin_def c' Let_def split: if_splits prod.splits sum.splits)
    then show ?thesis by simp
  qed
  then show ?thesis
    using assms by (simp add: clipboard_handle_def clip_pull_end_def try_recv_def chan_send_def
        chan_drop_def effect_def Let_def)
qed

lemma sample_pull:
  "\<exists>n1. clip_pull_begin sample_env ''B'' sample_linked = (Inr 0, n1) \<and> hm_get (chans n1) 0 = Some [] \<and>
     clip_pending n1 = [(''B'', 0)]"
  unfolding clip_pull_begin_def new_channel_def proto_for_def best_proto_def send_payload_def encrypt_def
    send_ws_def chan_send_def
  by (simp add: proto_upper sample_linked_def sample_env_def sample_net_def sample_key_def sample_seal_def
      sample_frame_out_def world_simps hm_simps hm_insert_def hm_contains_def)

theorem clipboard_pull_completes_witness:
  "\<exists>m. fst (clip_pull_end ''B'' 0 (clipboard_handle sample_env sample_response m)) = Inr ''x''"
proof -
  obtain n1 where b: "clip_pull_begin sample_env ''B'' sample_linked = (Inr 0, n1)"
    "hm_get (chans n1) 0 = Some []"
    using sample_pull by blast
  have "msg_kind sample_response = ''clipboard_response''" "msg_str sample_response ''from'' = ''B''"
    "msg_str sample_response ''content'' = ''x''"
    by (simp_all add: msg_kind_def msg_str_def sample_response_def control_of_def json_str_at_def)
  then have "fst (clip_pull_end ''B'' 0 (clipboard_handle sample_env sample_response n1)) = Inr ''x''"
    using clipboard_pull_completes [OF b(1) _ _ refl b(2), of sample_response]
    by (auto simp: Let_def split: prod.splits)
  then show ?thesis by blast
qed

text \<open>Two pulls from the same peer at the same time both fail, even if the peer answers.
  The second pull takes the pending entry over; the first, with its sender gone, ends in an
  error and on its way out removes the entry of the second, so that the answer finds no one
  waiting and the second ends in an error as well.\<close>

theorem concurrent_pulls_both_fail:
  assumes "clip_pull_begin e node n = (Inr c1, n1)" "clip_pull_begin e node n1 = (Inr c2, n2)"
    and "hm_get (chans n2) c1 = Some []" "hm_get (chans n2) c2 = Some []"
    and "msg_kind msg = ''clipboard_response''" "msg_str msg ''from'' = node"
    and "clip_pull_end node c1 n2 = (r1, n3)" "n4 = clipboard_handle e msg n3"
    and "clip_pull_end node c2 n4 = (r2, n5)"
  shows "isl r1 \<and> isl r2 \<and> n4 = n3"
proof -
  have e1: "isl r1" "hm_get (clip_pending n3) node = None"
    using assms(3,7) by (auto simp: clip_pull_end_def try_recv_def chan_drop_def Let_def)
  then have n4: "n4 = n3"
    using assms(5,6,8) by (simp add: clipboard_handle_def Let_def)
  have q: "hm_get (chans n3) c2 = Some [] \<or> hm_get (chans n3) c2 = None"
    using assms(3,4,7) by (auto simp: clip_pull_end_def try_recv_def chan_drop_def Let_def split: if_splits)
  show ?thesis
    using e1 n4 q assms(9) by (auto simp: clip_pull_end_def try_recv_def Let_def)
qed

theorem concurrent_pulls_both_fail_witness:
  "\<exists>n2 n3 r1 r2 n5. clip_pull_end ''B'' 0 n2 = (r1, n3) \<and>
     clip_pull_end ''B'' 1 (clipboard_handle sample_env sample_response n3) = (r2, n5) \<and> isl r1 \<and> isl r2"
proof -
  have ends: "\<exists>n1 n2. clip_pull_begin sample_env ''B'' sample_linked = (Inr 0, n1) \<and>
      clip_pull_begin sample_env ''B'' n1 = (Inr 1, n2) \<and>
      hm_get (chans n2) 0 = Some [] \<and> hm_get (chans n2) 1 = Some []"
    unfolding clip_pull_begin_def new_channel_def proto_for_def best_proto_def send_payload_def encrypt_def
      send_ws_def chan_send_def
    by (simp add: proto_upper sample_linked_def sample_env_def sample_net_def sample_key_def sample_seal_def
        sample_frame_out_def world_simps hm_simps hm_insert_def hm_contains_def)
  then obtain n1 n2 where b: "clip_pull_begin sample_env ''B'' sample_linked = (Inr 0, n1)"
    "clip_pull_begin sample_env ''B'' n1 = (Inr 1, n2)"
    "hm_get (chans n2) 0 = Some []" "hm_get (chans n2) 1 = Some []"
    by blast
  obtain r1 n3 where 1: "clip_pull_end ''B'' 0 n2 = (r1, n3)" by fastforce
  obtain r2 n5 where 2: "clip_pull_end ''B'' 1 (clipboard_handle sample_env sample_response n3) = (r2, n5)"
    by fastforce
  have "msg_kind sample_response = ''clipboard_response''" "msg_str sample_response ''from'' = ''B''"
    by (simp_all add: msg_kind_def msg_str_def sample_response_def control_of_def json_str_at_def)
  from concurrent_pulls_both_fail [OF b this 1 refl 2] 1 2 show ?thesis by blast
qed

text \<open>Clipboard synchronisation does not echo. When a pushed clipboard has been applied and the
  watcher next sees that same content on the clipboard, it sends nothing and changes nothing.\<close>

theorem no_clipboard_echo:
  assumes "msg_kind msg = ''clipboard''" "clip_active n" "has_clipboard e"
    and "n' = clipboard_handle e msg n" "clipboard_get e (tick n') = Some (msg_str msg ''content'')"
  shows "clip_watch e n' = advance n'"
  using assms
  by (auto simp: clip_watch_def clipboard_handle_def read_clipboard_def effect_def emit_def advance_def Let_def)

definition sample_push :: control_msg where
  "sample_push = control_of ''bob'' '''' ''UDP''
     (obj [(''type'', JStr ''clipboard''), (''from'', JStr ''B''), (''content'', JStr ''clip'')])"

theorem no_clipboard_echo_witness:
  "clip_watch sample_env (clipboard_handle sample_env sample_push (sample_net\<lparr>clip_active := True\<rparr>)) =
   advance (clipboard_handle sample_env sample_push (sample_net\<lparr>clip_active := True\<rparr>))"
proof -
  have "msg_kind sample_push = ''clipboard''" "msg_str sample_push ''content'' = ''clip''"
    by (simp_all add: msg_kind_def msg_str_def sample_push_def control_of_def json_str_at_def)
  then show ?thesis
    using no_clipboard_echo [of sample_push "sample_net\<lparr>clip_active := True\<rparr>" sample_env, OF _ _ _ refl]
    by (simp add: sample_env_def)
qed

section \<open>Labels and subscriptions\<close>

text \<open>The transport that \<open>send\<close> reports can be wrong. For a peer first seen alive over UDP that
  has since got a persistent link, a successful send puts the frame into the link's queue,
  touches no socket, and reports UDP.\<close>

theorem send_misreports_link:
  assumes "hm_get (p2p_conns n) k = Some c" "l_kind c = Udp" "hm_get (ws_conns n) k = Some (cid, ch)"
    and "send e k text n = (Inr label, n')"
  shows "label = ''UDP'' \<and> out n' = out n"
proof -
  let ?s = "unwrap_or (i_name (identity n)) (username n)"
  have ws: "proto_for n k = ''WS''" using assms(3) by (simp add: proto_for_def best_proto_def hm_contains_def)
  have t: "p2p_conns n' = p2p_conns n" using traffic_fields(5) [OF send_traffic [OF assms(4)]] .
  obtain r where r: "send_payload e ?s k ''WS'' text n = (Inr r, n')" "label = display_transport n' k ''WS''"
    using assms(4) by (auto simp: send_def ws Let_def split: prod.splits sum.splits)
  have "out n' = out n"
  proof (rule send_payload_sealed)
    show "send_payload e ?s k ''WS'' text n = (Inr (), n')" using r by simp
  next
    fix key' pt env n1 body
    assume "encrypt e key' pt n = (Some env, n1)"
      "(if to_uppercase ''WS'' = ''WS'' then send_ws e k env n1
        else send_direct e k (to_uppercase ''WS'') body n1) = (Inr (), n')"
    then show ?thesis
      using encrypt_keeps(1) [of e key' pt n "Some env" n1] send_ws_queue [of e k env n1] by (simp add: proto_upper)
  qed
  then show ?thesis using r(2) t assms(1,2) by (simp add: display_transport_def)
qed

theorem send_misreports_link_witness:
  "\<exists>n'. send sample_env ''B'' ''hi'' (sample_linked\<lparr>p2p_conns :=
     [(''B'', \<lparr>l_kind = Udp, l_last_seen = 0, l_addr = None\<rparr>)]\<rparr>) = (Inr ''UDP'', n') \<and> out n' = []"
proof -
  let ?n = "sample_linked\<lparr>p2p_conns := [(''B'', \<lparr>l_kind = Udp, l_last_seen = 0, l_addr = None\<rparr>)]\<rparr>"
  have "\<exists>l. send sample_env ''B'' ''hi'' ?n = (Inr l, snd (send sample_env ''B'' ''hi'' ?n))"
    unfolding send_def proto_for_def best_proto_def send_payload_def encrypt_def send_ws_def chan_send_def
    by (simp add: proto_upper sample_linked_def sample_env_def sample_net_def sample_key_def sample_seal_def
        sample_frame_out_def world_simps hm_simps hm_contains_def)
  then obtain l where s: "send sample_env ''B'' ''hi'' ?n = (Inr l, snd (send sample_env ''B'' ''hi'' ?n))" by blast
  have "hm_get (p2p_conns ?n) ''B'' = Some \<lparr>l_kind = Udp, l_last_seen = 0, l_addr = None\<rparr>"
    "hm_get (ws_conns ?n) ''B'' = Some (1, 4)" "out ?n = []"
    by (simp_all add: sample_linked_def sample_net_def hm_simps)
  from send_misreports_link [OF this(1) _ this(2) s] this(3) s show ?thesis by fastforce
qed

text \<open>A subscription is the whole enabled set. After a peer's subscription message the
  notifications of a package go to that peer exactly if the package is in the message's list,
  and to every other peer exactly if they did before.\<close>

theorem subscription_replaces:
  assumes "hm_ok (subs n)" "msg_kind msg = ''subscribe_apps''" "msg_str msg ''from'' = who" "who \<noteq> []"
  shows "k \<in> set (subscribers pkg (notif_apps_handle e msg n)) \<longleftrightarrow>
     (if k = who then pkg \<in> set (json_str_list (msg_json msg ''apps'')) else k \<in> set (subscribers pkg n))"
proof -
  have sub: "k \<in> set (subscribers pkg m) \<longleftrightarrow> (\<exists>ps. hm_get (subs m) k = Some ps \<and> pkg \<in> set ps)"
    if "hm_ok (subs m)" for m
  proof -
    have "(k, ps) \<in> set (subs m) \<longleftrightarrow> hm_get (subs m) k = Some ps" for ps
      by (rule iffI [OF hm_in_set_get [OF that] hm_get_in_set])
    then show ?thesis by (auto simp: subscribers_def image_iff)
  qed
  have h: "notif_apps_handle e msg n =
      n\<lparr>subs := hm_insert who (json_str_list (msg_json msg ''apps'')) (subs n)\<rparr>"
    using assms(2-4) by (simp add: notif_apps_handle_def Let_def)
  have ok: "hm_ok (subs (notif_apps_handle e msg n))" using assms(1) by (simp add: h)
  show ?thesis unfolding sub [OF assms(1)] sub [OF ok] by (simp add: h)
qed

definition sample_subscribe :: control_msg where
  "sample_subscribe = control_of ''bob'' '''' ''UDP'' (obj [(''type'', JStr ''subscribe_apps''),
     (''from'', JStr ''B''), (''apps'', JArr [JStr ''mail'', JNull])])"

theorem subscription_replaces_witness:
  "''B'' \<in> set (subscribers ''mail'' (notif_apps_handle sample_env sample_subscribe sample_net)) \<and>
   ''B'' \<notin> set (subscribers ''chat'' (notif_apps_handle sample_env sample_subscribe sample_net))"
proof -
  have m: "msg_kind sample_subscribe = ''subscribe_apps''" "msg_str sample_subscribe ''from'' = ''B''"
    "json_str_list (msg_json sample_subscribe ''apps'') = [''mail'']"
    by (simp_all add: msg_kind_def msg_str_def msg_json_def json_str_list_def sample_subscribe_def
        control_of_def json_str_at_def map_filter_simps)
  have "hm_ok (subs sample_net)" by (simp add: sample_net_def)
  from subscription_replaces [OF this m(1,2)] show ?thesis by (simp add: m(3))
qed

end
