(* ===== verification/Connect.thy ===== *)
theory Connect
  imports Engine Link_Delivery
begin

text \<open>
  Connection set-up (\<open>engine.rs\<close>): the ladder that \<open>connect\<close> runs on its own thread
  (\<open>run_connect_ladder\<close>, \<open>wait_live\<close>, \<open>udp_ping_connect\<close>, \<open>same_lan\<close>) and the responder side,
  \<open>on_signal\<close>. Other threads act while the ladder waits: \<open>others i\<close> is what they did to the
  state during its \<open>i\<close>-th pause.
\<close>

section \<open>Helpers\<close>

definition same_lan :: "net \<Rightarrow> peer \<Rightarrow> bool" where
  "same_lan n p =
     (p_source p = Lan \<or>
      (case (parse_ipv4 (i_ip (identity n)), parse_ipv4 (p_ip p)) of
         (Some a, Some b) \<Rightarrow> take 3 (octets a) = take 3 (octets b)
       | _ \<Rightarrow> False))"

definition is_live :: "net \<Rightarrow> string \<Rightarrow> bool" where
  "is_live n node_id = hm_contains (p2p_conns n) node_id"

fun wait_live ::
  "(nat \<Rightarrow> net \<Rightarrow> net) \<Rightarrow> string \<Rightarrow> nat \<Rightarrow> nat \<Rightarrow> net \<Rightarrow> bool \<times> nat \<times> net" where
  "wait_live others node_id 0 i n = (is_live n node_id, i, n)"
| "wait_live others node_id (Suc steps) i n =
     (let n = others i n in
      if is_live n node_id then (True, Suc i, n) else wait_live others node_id steps (Suc i) n)"

definition peer_inbound_blocked :: "peer \<Rightarrow> bool" where
  "peer_inbound_blocked p = p_inbound_blocked p"

text \<open>The threads a rung starts; their steps are among those of the others.\<close>

datatype spawned =
    WsThread string ws_conn
  | PunchThread "candidate list" string
  | RtcThread string string

record ladder =
  la_slot :: nat
  la_net :: net
  la_spawned :: "spawned list"

text \<open>
  The outcomes of the blocking calls: dialling the WebSocket, gathering candidates, making
  the SDP offer and applying an answer.
\<close>

record ladder_io =
  io_connect :: "string option"
  io_timeout :: "string option"
  io_handshake :: "string option"
  io_bound :: "u16 option"
  io_stun_server :: "sock_addr option"
  io_reflexive :: "(ipv4 \<times> u16) option"
  io_offer :: "string option"
  io_answer :: "string \<Rightarrow> bool"

definition progress :: "string \<Rightarrow> string \<Rightarrow> string option \<Rightarrow> ladder \<Rightarrow> ladder" where
  "progress node_id stage detail l = l\<lparr>la_net := emit (ConnectProgress node_id stage detail) (la_net l)\<rparr>"

definition ladder_wait :: "(nat \<Rightarrow> net \<Rightarrow> net) \<Rightarrow> string \<Rightarrow> nat \<Rightarrow> ladder \<Rightarrow> bool \<times> ladder" where
  "ladder_wait others node_id ms l =
     (let (live, i, n) = wait_live others node_id (ms div 100) (la_slot l) (la_net l)
      in (live, l\<lparr>la_slot := i, la_net := n\<rparr>))"

definition pause :: "(nat \<Rightarrow> net \<Rightarrow> net) \<Rightarrow> ladder \<Rightarrow> ladder" where
  "pause others l = l\<lparr>la_slot := Suc (la_slot l), la_net := others (la_slot l) (la_net l)\<rparr>"

section \<open>The rungs\<close>

text \<open>Each rung returns whether the ladder ends with it.\<close>

definition udp_ping_connect ::
  "env \<Rightarrow> (nat \<Rightarrow> net \<Rightarrow> net) \<Rightarrow> string \<Rightarrow> ladder \<Rightarrow> bool \<times> ladder" where
  "udp_ping_connect e others node_id l =
     (let n = la_net l;
          ping = json_to_string e (obj [(''type'', JStr ''p2p_ping''),
            (''from'', JStr (i_node_id (identity n)))])
      in case send_payload e (i_name (identity n)) node_id ''UDP'' ping n of
           (Inl _, n) \<Rightarrow> (False, l\<lparr>la_net := n\<rparr>)
         | (Inr _, n) \<Rightarrow> ladder_wait others node_id 2000 (l\<lparr>la_net := n\<rparr>))"

definition rung_lan ::
  "env \<Rightarrow> (nat \<Rightarrow> net \<Rightarrow> net) \<Rightarrow> string \<Rightarrow> peer \<Rightarrow> ladder \<Rightarrow> bool \<times> ladder" where
  "rung_lan e others node_id p l =
     (if same_lan (la_net l) p then
        (case udp_ping_connect e others node_id (progress node_id ''udp_ping'' None l) of
           (True, l) \<Rightarrow> (True, progress node_id ''connected'' (Some ''udp'') l)
         | (False, l) \<Rightarrow> (False, l))
      else (False, l))"

definition rung_ws ::
  "env \<Rightarrow> ladder_io \<Rightarrow> (nat \<Rightarrow> net \<Rightarrow> net) \<Rightarrow> string \<Rightarrow> peer \<Rightarrow> ladder \<Rightarrow> bool \<times> ladder" where
  "rung_ws e io others node_id p l =
     (if p_ws_port p \<noteq> 0 \<and> p_ws_open p \<and> \<not> peer_inbound_blocked p then
        let l = progress node_id ''direct_ws'' None l in
        (case ws_connect e (io_connect io) (io_timeout io) (io_handshake io) (p_ip p) (p_ws_port p)
            (la_net l) of
           (Inl _, n) \<Rightarrow> (False, l\<lparr>la_net := n\<rparr>)
         | (Inr (hello, w), n) \<Rightarrow>
             ladder_wait others node_id 3000
               (l\<lparr>la_net := n, la_spawned := la_spawned l @ [WsThread hello w]\<rparr>))
      else (False, l))"

definition ladder_uuid :: "env \<Rightarrow> ladder \<Rightarrow> string \<times> ladder" where
  "ladder_uuid e l = (new_uuid e (tick (la_net l)), l\<lparr>la_net := advance (la_net l)\<rparr>)"

definition ladder_signal :: "env \<Rightarrow> string \<Rightarrow> signal \<Rightarrow> ladder \<Rightarrow> bool \<times> ladder" where
  "ladder_signal e node_id sig l =
     (let (r, n) = send_signal e node_id sig (la_net l) in (\<not> isl r, l\<lparr>la_net := n\<rparr>))"

definition rung_signal ::
  "env \<Rightarrow> (nat \<Rightarrow> net \<Rightarrow> net) \<Rightarrow> string \<Rightarrow> ladder \<Rightarrow> bool \<times> ladder" where
  "rung_signal e others node_id l =
     (let l = progress node_id ''via_signal'' None l;
          (sid, l) = ladder_uuid e l
      in case ladder_signal e node_id (StartWs sid) l of
           (False, l) \<Rightarrow> (False, l)
         | (True, l) \<Rightarrow> ladder_wait others node_id 8000 l)"

definition drop_punch_waiter :: "string \<Rightarrow> ladder \<Rightarrow> ladder" where
  "drop_punch_waiter sid l =
     l\<lparr>la_net := (la_net l)\<lparr>punch_waiters := hm_remove sid (punch_waiters (la_net l))\<rparr>\<rparr>"

definition drop_rtc_waiter :: "string \<Rightarrow> ladder \<Rightarrow> ladder" where
  "drop_rtc_waiter sid l =
     l\<lparr>la_net := (la_net l)\<lparr>rtc_waiters := hm_remove sid (rtc_waiters (la_net l))\<rparr>\<rparr>"

definition ladder_recv :: "(nat \<Rightarrow> net \<Rightarrow> net) \<Rightarrow> nat \<Rightarrow> ladder \<Rightarrow> chan_msg option \<times> ladder" where
  "ladder_recv others c l =
     (let l = pause others l; (m, n) = try_recv c (la_net l) in (m, l\<lparr>la_net := n\<rparr>))"

definition close_rx :: "nat \<Rightarrow> ladder \<Rightarrow> ladder" where
  "close_rx c l = l\<lparr>la_net := chan_drop c (la_net l)\<rparr>"

definition rung_punch ::
  "env \<Rightarrow> ladder_io \<Rightarrow> (nat \<Rightarrow> net \<Rightarrow> net) \<Rightarrow> string \<Rightarrow> ladder \<Rightarrow> bool \<times> ladder" where
  "rung_punch e io others node_id l =
     (let l = progress node_id ''punching'' None l in
      case gather_candidates (io_bound io) (io_stun_server io) (io_reflexive io) (la_net l) of
        None \<Rightarrow> (False, l)
      | Some my_cands \<Rightarrow>
          (let (sid, l) = ladder_uuid e l;
               (c, n) = new_channel (la_net l);
               l = l\<lparr>la_net := n\<lparr>punch_waiters := hm_insert sid c (punch_waiters n)\<rparr>\<rparr>
           in case ladder_signal e node_id (PunchOffer sid my_cands 0) l of
                (False, l) \<Rightarrow> (False, close_rx c (drop_punch_waiter sid l))
              | (True, l) \<Rightarrow>
                  (case ladder_recv others c l of
                     (Some (CandMsg peer_cands), l) \<Rightarrow>
                       (let l = drop_punch_waiter sid l;
                            l = l\<lparr>la_spawned := la_spawned l @ [PunchThread peer_cands node_id]\<rparr>;
                            (live, l) = ladder_wait others node_id 12000 l
                        in (live, close_rx c l))
                   | (_, l) \<Rightarrow> (False, close_rx c (drop_punch_waiter sid l)))))"

definition rung_rtc ::
  "env \<Rightarrow> ladder_io \<Rightarrow> (nat \<Rightarrow> net \<Rightarrow> net) \<Rightarrow> string \<Rightarrow> ladder \<Rightarrow> bool \<times> ladder" where
  "rung_rtc e io others node_id l =
     (let l = progress node_id ''webrtc'' None l in
      case io_offer io of
        None \<Rightarrow> (False, l)
      | Some offer_sdp \<Rightarrow>
          (let (sid, l) = ladder_uuid e l;
               (c, n) = new_channel (la_net l);
               l = l\<lparr>la_net := n\<lparr>rtc_waiters := hm_insert sid c (rtc_waiters n)\<rparr>\<rparr>
           in case ladder_signal e node_id (SdpOffer sid offer_sdp) l of
                (False, l) \<Rightarrow> (False, close_rx c (drop_rtc_waiter sid l))
              | (True, l) \<Rightarrow>
                  (case ladder_recv others c l of
                     (Some (StrMsg answer_sdp), l) \<Rightarrow>
                       (let l = drop_rtc_waiter sid l in
                        if io_answer io answer_sdp then
                          (let l = l\<lparr>la_spawned := la_spawned l @ [RtcThread answer_sdp node_id]\<rparr>;
                               (live, l) = ladder_wait others node_id 12000 l
                           in (live, close_rx c l))
                        else (False, close_rx c l))
                   | (_, l) \<Rightarrow> (False, close_rx c (drop_rtc_waiter sid l)))))"

definition or_else :: "bool \<times> ladder \<Rightarrow> (ladder \<Rightarrow> bool \<times> ladder) \<Rightarrow> bool \<times> ladder" where
  "or_else r next = (case r of (True, l) \<Rightarrow> (True, l) | (False, l) \<Rightarrow> next l)"

definition run_connect_ladder ::
  "env \<Rightarrow> ladder_io \<Rightarrow> (nat \<Rightarrow> net \<Rightarrow> net) \<Rightarrow> string \<Rightarrow> net \<Rightarrow> bool \<times> ladder" where
  "run_connect_ladder e io others node_id n =
     (let l = \<lparr>la_slot = 0, la_net = n, la_spawned = []\<rparr> in
      if is_live n node_id then (True, progress node_id ''connected'' None l)
      else
        case hm_get (peers n) node_id of
          None \<Rightarrow> (False, progress node_id ''failed'' (Some ''peer not found'') l)
        | Some p \<Rightarrow>
            or_else (rung_lan e others node_id p l) (\<lambda>l.
            or_else (rung_ws e io others node_id p l) (\<lambda>l.
            or_else (rung_signal e others node_id l) (\<lambda>l.
            or_else (rung_punch e io others node_id l) (\<lambda>l.
            or_else (rung_rtc e io others node_id l) (\<lambda>l.
              (False, progress node_id ''failed'' (Some ''no reachable path'') l)))))))"

definition connect :: "string \<Rightarrow> net \<Rightarrow> string + unit" where
  "connect node_id n = (if hm_contains (peers n) node_id then Inr () else Inl ''peer not found'')"

text \<open>\<open>connect_ws\<close> dials at once, on the caller's thread.\<close>

definition connect_ws :: "env \<Rightarrow> ladder_io \<Rightarrow> string \<Rightarrow> net \<Rightarrow> (string + spawned list) \<times> net" where
  "connect_ws e io node_id n =
     (case connect_ws_target node_id n of
        Inl err \<Rightarrow> (Inl err, n)
      | Inr None \<Rightarrow> (Inr [], n)
      | Inr (Some (ip, port)) \<Rightarrow>
          (case ws_connect e (io_connect io) (io_timeout io) (io_handshake io) ip port n of
             (Inl err, n) \<Rightarrow> (Inl err, n)
           | (Inr (hello, w), n) \<Rightarrow> (Inr [WsThread hello w], n)))"

section \<open>What the ladder tells the UI and leaves behind\<close>

fun stage_of :: "effect \<Rightarrow> string option" where
  "stage_of (Emit (ConnectProgress k s d)) = Some s"
| "stage_of _ = None"

definition stages :: "effect list \<Rightarrow> string list" where
  "stages xs = List.map_filter stage_of xs"

lemma stages_append [simp]: "stages (xs @ ys) = stages xs @ stages ys"
  by (simp add: stages_def List.map_filter_def)

lemma stages_none: "list_all (\<lambda>x. stage_of x = None) xs \<Longrightarrow> stages xs = []"
  by (induction xs) (simp_all add: stages_def List.map_filter_def)

text \<open>
  \<open>climbs S n n'\<close>: from \<open>n\<close> to \<open>n'\<close> the stages reported are a subsequence of \<open>S\<close>, and no
  negotiation that was not pending is pending.
\<close>

definition climbs :: "string list \<Rightarrow> net \<Rightarrow> net \<Rightarrow> bool" where
  "climbs S n n' =
     ((\<exists>ss. stages (out n') = stages (out n) @ ss \<and> subseq ss S) \<and>
      dom (hm_get (punch_waiters n')) \<subseteq> dom (hm_get (punch_waiters n)) \<and>
      dom (hm_get (rtc_waiters n')) \<subseteq> dom (hm_get (rtc_waiters n)))"

lemma climbs_refl: "climbs S n n"
  by (auto simp: climbs_def)

lemma climbs_trans:
  assumes "climbs S n n'" "climbs T n' n''"
  shows "climbs (S @ T) n n''"
proof -
  obtain ss ts where "stages (out n') = stages (out n) @ ss" "subseq ss S"
    "stages (out n'') = stages (out n') @ ts" "subseq ts T"
    using assms by (auto simp: climbs_def)
  then have "stages (out n'') = stages (out n) @ (ss @ ts) \<and> subseq (ss @ ts) (S @ T)"
    by (simp add: list_emb_append_mono)
  then show ?thesis using assms unfolding climbs_def by blast
qed

lemma climbs_quiet:
  "climbs [] n n' \<Longrightarrow> climbs T n' n'' \<Longrightarrow> climbs T n n''"
  "climbs T n n' \<Longrightarrow> climbs [] n' n'' \<Longrightarrow> climbs T n n''"
  using climbs_trans [of "[]" n n' T n''] climbs_trans [of T n n' "[]" n''] by simp_all

lemma climbs_weaken: "climbs S n n' \<Longrightarrow> subseq S T \<Longrightarrow> climbs T n n'"
  unfolding climbs_def by (meson subseq_order.trans)

lemma climbs_progress: "climbs [s] (la_net l) (la_net (progress k s d l))"
  by (simp add: climbs_def progress_def emit_def) (simp add: stages_def List.map_filter_def)

lemma is_io_no_stage: "is_io x \<Longrightarrow> stage_of x = None"
  by (cases x) simp_all

lemma traffic_climbs: "traffic n n' \<Longrightarrow> climbs [] n n'"
proof -
  assume t: "traffic n n'"
  then obtain xs where xs: "out n' = out n @ xs" "list_all is_io xs" by (auto simp: traffic_def)
  have "list_all (\<lambda>x. stage_of x = None) xs"
    using xs(2) by (simp add: list_all_iff is_io_no_stage)
  then show ?thesis using xs(1) stages_none by (simp add: climbs_def traffic_fields(13,14) [OF t])
qed

lemma climbs_same:
  "stages (out n') = stages (out n) \<Longrightarrow> punch_waiters n' = punch_waiters n \<Longrightarrow>
   rtc_waiters n' = rtc_waiters n \<Longrightarrow> climbs [] n n'"
  by (simp add: climbs_def)

lemma ws_connect_climbs: "ws_connect e a b c ip port n = (r, n') \<Longrightarrow> climbs [] n n'"
  by (rule climbs_same) (auto simp: ws_connect_def ws_start_def new_channel_def Let_def split: option.splits)

lemma channel_climbs: "new_channel n = (c, n') \<Longrightarrow> climbs [] n n'" "climbs [] n (chan_drop c n)"
  "climbs [] n (advance n)" "try_recv c n = (m, n') \<Longrightarrow> climbs [] n n'"
  by (rule climbs_same; auto simp: new_channel_def chan_drop_def advance_def try_recv_def Let_def
      split: option.splits list.splits)+

lemma send_signal_climbs: "send_signal e k sig n = (r, n') \<Longrightarrow> climbs [] n n'"
  by (auto simp: send_signal_def intro: climbs_refl dest: registry_traffic(4) [THEN traffic_climbs]
      split: option.splits sum.splits)

text \<open>A waiter that was put in and taken out again.\<close>

lemma climbs_waiter:
  "climbs S (n\<lparr>punch_waiters := hm_insert sid c (punch_waiters n)\<rparr>) n' \<Longrightarrow>
   climbs S n (n'\<lparr>punch_waiters := hm_remove sid (punch_waiters n')\<rparr>)"
  "climbs S (n\<lparr>rtc_waiters := hm_insert sid c (rtc_waiters n)\<rparr>) n' \<Longrightarrow>
   climbs S n (n'\<lparr>rtc_waiters := hm_remove sid (rtc_waiters n')\<rparr>)"
  by (auto simp: climbs_def hm_get_fun_insert hm_get_fun_remove)

lemma ladder_uuid_climbs: "ladder_uuid e l = (sid, l') \<Longrightarrow> climbs [] (la_net l) (la_net l')"
  by (auto simp: ladder_uuid_def channel_climbs)

lemma ladder_signal_climbs: "ladder_signal e k sig l = (ok, l') \<Longrightarrow> climbs [] (la_net l) (la_net l')"
  by (auto simp: ladder_signal_def split: prod.splits dest: send_signal_climbs)

lemma close_rx_climbs: "climbs S n (la_net l) \<Longrightarrow> climbs S n (la_net (close_rx c l))"
  by (erule climbs_quiet(2)) (simp add: close_rx_def channel_climbs(2))

lemma is_live_close: "is_live (la_net (close_rx c l)) k = is_live (la_net l) k"
  by (simp add: close_rx_def chan_drop_def is_live_def)

locale bystander =
  fixes others :: "nat \<Rightarrow> net \<Rightarrow> net"
  assumes others_climb: "climbs [] n (others i n)"
begin

lemma wait_climbs: "wait_live others k s i n = (b, j, n') \<Longrightarrow> climbs [] n n' \<and> b = is_live n' k"
proof (induction s arbitrary: i n)
  case 0
  then show ?case by (auto intro: climbs_refl)
next
  case (Suc s)
  show ?case
  proof (cases "is_live (others i n) k")
    case True
    then show ?thesis using Suc.prems others_climb by (auto simp: Let_def)
  next
    case False
    then have "climbs [] (others i n) n' \<and> b = is_live n' k"
      using Suc.IH [of "Suc i" "others i n"] Suc.prems by (simp add: Let_def)
    then show ?thesis using climbs_quiet(1) [OF others_climb] by blast
  qed
qed

lemma ladder_wait_climbs:
  "ladder_wait others k ms l = (b, l') \<Longrightarrow> climbs [] (la_net l) (la_net l') \<and> b = is_live (la_net l') k"
  by (auto simp: ladder_wait_def split: prod.splits dest!: wait_climbs)

lemma udp_ping_climbs:
  assumes "udp_ping_connect e others k l = (b, l')"
  shows "climbs [] (la_net l) (la_net l') \<and> (b \<longrightarrow> is_live (la_net l') k)"
proof -
  define ping where "ping = json_to_string e (obj [(''type'', JStr ''p2p_ping''),
    (''from'', JStr (i_node_id (identity (la_net l))))])"
  obtain r n where s: "send_payload e (i_name (identity (la_net l))) k ''UDP'' ping (la_net l) = (r, n)"
    by fastforce
  have c: "climbs [] (la_net l) n"
    using traffic_climbs [OF send_payload_traffic] s by (metis snd_conv)
  show ?thesis
  proof (cases r)
    case Inl
    then show ?thesis using assms c by (auto simp: udp_ping_connect_def s ping_def [symmetric])
  next
    case (Inr u)
    then have "ladder_wait others k 2000 (l\<lparr>la_net := n\<rparr>) = (b, l')"
      using assms by (simp add: udp_ping_connect_def s ping_def [symmetric] Let_def)
    from ladder_wait_climbs [OF this] show ?thesis using climbs_quiet(1) [OF c] by simp
  qed
qed

lemma rung_lan_climbs:
  assumes "rung_lan e others k p l = (b, l')"
  shows "climbs [''udp_ping'', ''connected''] (la_net l) (la_net l') \<and> (b \<longrightarrow> is_live (la_net l') k)"
proof (cases "same_lan (la_net l) p")
  case True
  let ?l = "progress k ''udp_ping'' None l"
  obtain c m where u: "udp_ping_connect e others k ?l = (c, m)" by fastforce
  have m: "climbs [''udp_ping''] (la_net l) (la_net m)" "c \<longrightarrow> is_live (la_net m) k"
    using udp_ping_climbs [OF u] climbs_quiet(2) [OF climbs_progress] by blast+
  have "climbs [''udp_ping'', ''connected''] (la_net l) (la_net (progress k ''connected'' (Some ''udp'') m))"
    using climbs_trans [OF m(1) climbs_progress] by simp
  moreover have "is_live (la_net (progress k s d m)) k = is_live (la_net m) k" for s d
    by (simp add: is_live_def progress_def emit_def)
  moreover have "climbs [''udp_ping'', ''connected''] (la_net l) (la_net m)"
    by (rule climbs_weaken [OF m(1)]) simp
  ultimately show ?thesis
    using assms True u m(2) by (auto simp: rung_lan_def split: prod.splits bool.splits)
next
  case False
  then show ?thesis using assms by (simp add: rung_lan_def climbs_refl)
qed

lemma ladder_recv_climbs: "ladder_recv others c l = (m, l') \<Longrightarrow> climbs [] (la_net l) (la_net l')"
  by (auto simp: ladder_recv_def pause_def Let_def split: prod.splits
      dest!: channel_climbs(4) intro: climbs_quiet(1) [OF others_climb])

lemma rung_ws_climbs:
  assumes "rung_ws e io others k p l = (b, l')"
  shows "climbs [''direct_ws''] (la_net l) (la_net l') \<and> (b \<longrightarrow> is_live (la_net l') k)"
proof (cases "p_ws_port p \<noteq> 0 \<and> p_ws_open p \<and> \<not> peer_inbound_blocked p")
  case True
  let ?l = "progress k ''direct_ws'' None l"
  obtain r n where w: "ws_connect e (io_connect io) (io_timeout io) (io_handshake io) (p_ip p) (p_ws_port p)
      (la_net ?l) = (r, n)" by fastforce
  have c: "climbs [''direct_ws''] (la_net l) n"
    by (rule climbs_quiet(2) [OF climbs_progress ws_connect_climbs [OF w]])
  show ?thesis
  proof (cases r)
    case Inl
    then show ?thesis using assms True w c by (auto simp: rung_ws_def)
  next
    case (Inr hw)
    obtain h v where hw: "hw = (h, v)" by (cases hw)
    have "ladder_wait others k 3000 (?l\<lparr>la_net := n, la_spawned := la_spawned ?l @ [WsThread h v]\<rparr>) = (b, l')"
      using assms True w Inr hw by (simp add: rung_ws_def Let_def)
    from ladder_wait_climbs [OF this] show ?thesis using climbs_quiet(2) [OF c] by simp
  qed
next
  case False
  then show ?thesis using assms by (auto simp: rung_ws_def intro: climbs_weaken [OF climbs_refl])
qed

lemma rung_signal_climbs:
  assumes "rung_signal e others k l = (b, l')"
  shows "climbs [''via_signal''] (la_net l) (la_net l') \<and> (b \<longrightarrow> is_live (la_net l') k)"
proof -
  let ?l = "progress k ''via_signal'' None l"
  obtain sid l1 where u: "ladder_uuid e ?l = (sid, l1)" by fastforce
  obtain ok l2 where g: "ladder_signal e k (StartWs sid) l1 = (ok, l2)" by fastforce
  have c: "climbs [''via_signal''] (la_net l) (la_net l2)"
    by (rule climbs_quiet(2) [OF climbs_quiet(2) [OF climbs_progress ladder_uuid_climbs [OF u]]
          ladder_signal_climbs [OF g]])
  show ?thesis
    using assms c ladder_wait_climbs [of k 8000 l2 b l'] climbs_quiet(2) [OF c]
    by (cases ok) (simp_all add: rung_signal_def Let_def u g)
qed

lemma waiting_rung:
  assumes n: "climbs S n0 n"
    and l: "la_net l = n\<lparr>punch_waiters := hm_insert sid c (punch_waiters n)\<rparr>"
    and g: "ladder_signal e k sig l = (ok, l1)"
  shows "climbs S n0 (la_net (drop_punch_waiter sid l1))"
    and "ladder_recv others c l1 = (m, l2) \<Longrightarrow> climbs S n0 (la_net (drop_punch_waiter sid l2))"
proof -
  have 1: "climbs [] (la_net l) (la_net l1)" by (rule ladder_signal_climbs [OF g])
  have drop: "climbs S n0 (la_net (drop_punch_waiter sid x))" if "climbs [] (la_net l) (la_net x)" for x
    using climbs_quiet(2) [OF n climbs_waiter(1) [OF that [unfolded l]]]
    by (simp add: drop_punch_waiter_def)
  show "climbs S n0 (la_net (drop_punch_waiter sid l1))" by (rule drop [OF 1])
  show "climbs S n0 (la_net (drop_punch_waiter sid l2))" if "ladder_recv others c l1 = (m, l2)"
    by (rule drop [OF climbs_quiet(2) [OF 1 ladder_recv_climbs [OF that]]])
qed

lemma waiting_rung_rtc:
  assumes n: "climbs S n0 n"
    and l: "la_net l = n\<lparr>rtc_waiters := hm_insert sid c (rtc_waiters n)\<rparr>"
    and g: "ladder_signal e k sig l = (ok, l1)"
  shows "climbs S n0 (la_net (drop_rtc_waiter sid l1))"
    and "ladder_recv others c l1 = (m, l2) \<Longrightarrow> climbs S n0 (la_net (drop_rtc_waiter sid l2))"
proof -
  have 1: "climbs [] (la_net l) (la_net l1)" by (rule ladder_signal_climbs [OF g])
  have drop: "climbs S n0 (la_net (drop_rtc_waiter sid x))" if "climbs [] (la_net l) (la_net x)" for x
    using climbs_quiet(2) [OF n climbs_waiter(2) [OF that [unfolded l]]]
    by (simp add: drop_rtc_waiter_def)
  show "climbs S n0 (la_net (drop_rtc_waiter sid l1))" by (rule drop [OF 1])
  show "climbs S n0 (la_net (drop_rtc_waiter sid l2))" if "ladder_recv others c l1 = (m, l2)"
    by (rule drop [OF climbs_quiet(2) [OF 1 ladder_recv_climbs [OF that]]])
qed

lemma last_wait:
  assumes "climbs S n0 (la_net l)" "ladder_wait others k ms l = (b, l')"
  shows "climbs S n0 (la_net (close_rx c l')) \<and> (b \<longrightarrow> is_live (la_net (close_rx c l')) k)"
  using close_rx_climbs [OF climbs_quiet(2) [OF assms(1)]] ladder_wait_climbs [OF assms(2)]
  by (simp add: is_live_close)

lemma rung_punch_climbs:
  assumes "rung_punch e io others k l = (b, l')"
  shows "climbs [''punching''] (la_net l) (la_net l') \<and> (b \<longrightarrow> is_live (la_net l') k)"
proof -
  let ?l = "progress k ''punching'' None l"
  show ?thesis
  proof (cases "gather_candidates (io_bound io) (io_stun_server io) (io_reflexive io) (la_net ?l)")
    case None
    then show ?thesis using assms by (auto simp: rung_punch_def intro: climbs_progress)
  next
    case (Some cands)
    obtain sid l1 where u: "ladder_uuid e ?l = (sid, l1)" by fastforce
    obtain c n where ch: "new_channel (la_net l1) = (c, n)" by fastforce
    define l2 where "l2 = l1\<lparr>la_net := n\<lparr>punch_waiters := hm_insert sid c (punch_waiters n)\<rparr>\<rparr>"
    obtain ok l3 where g: "ladder_signal e k (PunchOffer sid cands 0) l2 = (ok, l3)" by fastforce
    obtain m l4 where r: "ladder_recv others c l3 = (m, l4)" by fastforce
    have n: "climbs [''punching''] (la_net l) n"
      by (rule climbs_quiet(2) [OF climbs_quiet(2) [OF climbs_progress ladder_uuid_climbs [OF u]]
            channel_climbs(1) [OF ch]])
    note w = waiting_rung [OF n _ g, of sid c]
    have w1: "climbs [''punching''] (la_net l) (la_net (drop_punch_waiter sid l3))"
      by (rule w(1)) (simp add: l2_def)
    have w2: "climbs [''punching''] (la_net l) (la_net (drop_punch_waiter sid l4))"
      by (rule w(2) [OF _ r]) (simp add: l2_def)
    have wait: "climbs [''punching''] (la_net l) (la_net (close_rx c x)) \<and> (b' \<longrightarrow> is_live (la_net (close_rx c x)) k)"
      if "ladder_wait others k 12000 (drop_punch_waiter sid l4\<lparr>la_spawned := sp\<rparr>) = (b', x)" for b' x sp
      by (rule last_wait [OF _ that]) (simp add: w2)
    have x: "rung_punch e io others k l = (if \<not> ok then (False, close_rx c (drop_punch_waiter sid l3)) else
        (case m of Some (CandMsg pc) \<Rightarrow>
          (let (live, x) = ladder_wait others k 12000 (drop_punch_waiter sid l4\<lparr>la_spawned :=
             la_spawned (drop_punch_waiter sid l4) @ [PunchThread pc k]\<rparr>) in (live, close_rx c x))
        | _ \<Rightarrow> (False, close_rx c (drop_punch_waiter sid l4))))"
      by (simp add: rung_punch_def Some u ch l2_def [symmetric] g r Let_def split: option.split chan_msg.split)
    show ?thesis
      using assms wait w1 w2 close_rx_climbs unfolding x
      by (auto split: if_splits option.splits chan_msg.splits prod.splits)
  qed
qed

lemma rung_rtc_climbs:
  assumes "rung_rtc e io others k l = (b, l')"
  shows "climbs [''webrtc''] (la_net l) (la_net l') \<and> (b \<longrightarrow> is_live (la_net l') k)"
proof -
  let ?l = "progress k ''webrtc'' None l"
  show ?thesis
  proof (cases "io_offer io")
    case None
    then show ?thesis using assms by (auto simp: rung_rtc_def intro: climbs_progress)
  next
    case (Some sdp)
    obtain sid l1 where u: "ladder_uuid e ?l = (sid, l1)" by fastforce
    obtain c n where ch: "new_channel (la_net l1) = (c, n)" by fastforce
    define l2 where "l2 = l1\<lparr>la_net := n\<lparr>rtc_waiters := hm_insert sid c (rtc_waiters n)\<rparr>\<rparr>"
    obtain ok l3 where g: "ladder_signal e k (SdpOffer sid sdp) l2 = (ok, l3)" by fastforce
    obtain m l4 where r: "ladder_recv others c l3 = (m, l4)" by fastforce
    have n: "climbs [''webrtc''] (la_net l) n"
      by (rule climbs_quiet(2) [OF climbs_quiet(2) [OF climbs_progress ladder_uuid_climbs [OF u]]
            channel_climbs(1) [OF ch]])
    note w = waiting_rung_rtc [OF n _ g, of sid c]
    have w1: "climbs [''webrtc''] (la_net l) (la_net (drop_rtc_waiter sid l3))"
      by (rule w(1)) (simp add: l2_def)
    have w2: "climbs [''webrtc''] (la_net l) (la_net (drop_rtc_waiter sid l4))"
      by (rule w(2) [OF _ r]) (simp add: l2_def)
    have wait: "climbs [''webrtc''] (la_net l) (la_net (close_rx c x)) \<and> (b' \<longrightarrow> is_live (la_net (close_rx c x)) k)"
      if "ladder_wait others k 12000 (drop_rtc_waiter sid l4\<lparr>la_spawned := sp\<rparr>) = (b', x)" for b' x sp
      by (rule last_wait [OF _ that]) (simp add: w2)
    have x: "rung_rtc e io others k l = (if \<not> ok then (False, close_rx c (drop_rtc_waiter sid l3)) else
        (case m of Some (StrMsg a) \<Rightarrow>
          if io_answer io a then
            (let (live, x) = ladder_wait others k 12000 (drop_rtc_waiter sid l4\<lparr>la_spawned :=
               la_spawned (drop_rtc_waiter sid l4) @ [RtcThread a k]\<rparr>) in (live, close_rx c x))
          else (False, close_rx c (drop_rtc_waiter sid l4))
        | _ \<Rightarrow> (False, close_rx c (drop_rtc_waiter sid l4))))"
      by (simp add: rung_rtc_def Some u ch l2_def [symmetric] g r Let_def split: option.split chan_msg.split)
    show ?thesis
      using assms wait w1 w2 close_rx_climbs unfolding x
      by (auto split: if_splits option.splits chan_msg.splits prod.splits)
  qed
qed

text \<open>
  A rung of the ladder: from every state it reports stages of \<open>S\<close>, and it ends the ladder
  only with the peer live. Rungs compose.
\<close>

definition rung :: "string \<Rightarrow> string list \<Rightarrow> (ladder \<Rightarrow> bool \<times> ladder) \<Rightarrow> bool" where
  "rung k S f = (\<forall>l. climbs S (la_net l) (la_net (snd (f l))) \<and>
     (fst (f l) \<longrightarrow> is_live (la_net (snd (f l))) k))"

lemma rungI:
  "(\<And>l b l'. f l = (b, l') \<Longrightarrow> climbs S (la_net l) (la_net l') \<and> (b \<longrightarrow> is_live (la_net l') k)) \<Longrightarrow> rung k S f"
  unfolding rung_def by (metis prod.collapse)

lemma rungD:
  "rung k S f \<Longrightarrow> f l = (b, l') \<Longrightarrow> climbs S (la_net l) (la_net l') \<and> (b \<longrightarrow> is_live (la_net l') k)"
  by (metis fst_conv rung_def snd_conv)

lemma rung_or_else:
  assumes f: "rung k S f" and g: "rung k T g"
  shows "rung k (S @ T) (\<lambda>l. or_else (f l) g)"
proof (rule rungI)
  fix l b l'
  assume h: "or_else (f l) g = (b, l')"
  obtain c m where m: "f l = (c, m)" by fastforce
  note fm = rungD [OF f m]
  show "climbs (S @ T) (la_net l) (la_net l') \<and> (b \<longrightarrow> is_live (la_net l') k)"
  proof (cases c)
    case True
    have "subseq S (S @ T)" by (rule list_emb_prefix) simp
    then show ?thesis using h m fm True climbs_weaken by (auto simp: or_else_def)
  next
    case False
    then have "g m = (b, l')" using h m by (simp add: or_else_def)
    from rungD [OF g this] show ?thesis using climbs_trans fm by blast
  qed
qed

lemma rung_failed: "rung k [''failed''] (\<lambda>l. (False, progress k ''failed'' d l))"
  by (simp add: rung_def climbs_progress)

lemma ladder_rungs:
  "rung k [''udp_ping'', ''connected''] (rung_lan e others k p)"
  "rung k [''direct_ws''] (rung_ws e io others k p)"
  "rung k [''via_signal''] (rung_signal e others k)"
  "rung k [''punching''] (rung_punch e io others k)"
  "rung k [''webrtc''] (rung_rtc e io others k)"
  by (rule rungI, erule rung_lan_climbs rung_ws_climbs rung_signal_climbs rung_punch_climbs rung_rtc_climbs)+

lemma ladder_climbs:
  "rung k [''udp_ping'', ''connected'', ''direct_ws'', ''via_signal'', ''punching'', ''webrtc'', ''failed'']
     (\<lambda>l. or_else (rung_lan e others k p l) (\<lambda>l.
          or_else (rung_ws e io others k p l) (\<lambda>l.
          or_else (rung_signal e others k l) (\<lambda>l.
          or_else (rung_punch e io others k l) (\<lambda>l.
          or_else (rung_rtc e io others k l) (\<lambda>l. (False, progress k ''failed'' d l)))))))"
proof -
  note r = ladder_rungs(5) [THEN rung_or_else, OF rung_failed]
  note r = ladder_rungs(4) [THEN rung_or_else, OF r]
  note r = ladder_rungs(3) [THEN rung_or_else, OF r]
  note r = ladder_rungs(2) [THEN rung_or_else, OF r]
  note r = ladder_rungs(1) [THEN rung_or_else, OF r]
  show ?thesis using r by simp
qed

lemma run_ladder_climbs:
  assumes "run_connect_ladder e io others k n = (b, l)"
  shows "climbs [''udp_ping'', ''connected'', ''direct_ws'', ''via_signal'', ''punching'', ''webrtc'', ''failed'']
      n (la_net l)" "b \<longrightarrow> is_live (la_net l) k"
proof -
  let ?S = "[''udp_ping'', ''connected'', ''direct_ws'', ''via_signal'', ''punching'', ''webrtc'', ''failed'']"
  let ?l = "\<lparr>la_slot = 0, la_net = n, la_spawned = []\<rparr>"
  have one: "climbs ?S n (la_net (progress k s d ?l))" if "s = ''connected'' \<or> s = ''failed''" for s d
    using climbs_weaken [OF climbs_progress, of _ ?S ?l k] that by fastforce
  have live: "is_live (la_net (progress k s d ?l)) k = is_live n k" for s d
    by (simp add: is_live_def progress_def emit_def)
  show "climbs ?S n (la_net l)" "b \<longrightarrow> is_live (la_net l) k"
    using assms one live
    by (auto simp: run_connect_ladder_def Let_def split: if_splits option.splits
        dest: rungD [OF ladder_climbs])
qed

end

end
