(* ===== verification/Signals.thy ===== *)
theory Signals
  imports Connect
begin

text \<open>
  The responder side of connection set-up: \<open>on_signal\<close> (\<open>engine.rs\<close>), run for every signal the
  platform's push receiver hands over. What it starts on other threads is returned, as for
  the ladder. The negotiation across two devices and what each signal can change.
\<close>

section \<open>The handler\<close>

text \<open>
  \<open>answer_offer\<close> is what \<open>accept_offer\<close> makes of an offer SDP on a fresh socket;
  the other outcomes are those of \<open>ladder_io\<close>.
\<close>

definition answer_waiter ::
  "string \<Rightarrow> chan_msg \<Rightarrow> (string, nat) hmap \<Rightarrow> ((string, nat) hmap \<Rightarrow> net \<Rightarrow> net) \<Rightarrow> net \<Rightarrow> net" where
  "answer_waiter sid msg waiters set_waiters n =
     (case hm_get waiters sid of
        None \<Rightarrow> n
      | Some c \<Rightarrow> snd (chan_send c msg (set_waiters (hm_remove sid waiters) n)))"

fun on_sig ::
  "env \<Rightarrow> ladder_io \<Rightarrow> (string \<Rightarrow> string option) \<Rightarrow> string \<Rightarrow> signal \<Rightarrow> net \<Rightarrow> spawned list \<times> net" where
  "on_sig e io answer_offer sender (StartWs sid) n =
     (let ident = identity n;
          (_, n) = update_ws_open e True n;
          (_, n) = send_signal e sender (WsReady sid (i_ip ident) (i_ws_port ident)) n
      in ([], n))"
| "on_sig e io answer_offer sender (WsReady _ ip port) n =
     (case ws_connect e (io_connect io) (io_timeout io) (io_handshake io) ip port n of
        (Inl _, n) \<Rightarrow> ([], n)
      | (Inr (hello, w), n) \<Rightarrow> ([WsThread hello w], n))"
| "on_sig e io answer_offer sender (PunchOffer sid cands _) n =
     (case gather_candidates (io_bound io) (io_stun_server io) (io_reflexive io) n of
        None \<Rightarrow> ([], n)
      | Some my_cands \<Rightarrow>
          (let (_, n) = send_signal e sender (PunchAnswer sid my_cands 0) n
           in ([PunchThread cands sender], n)))"
| "on_sig e io answer_offer sender (PunchAnswer sid cands _) n =
     ([], answer_waiter sid (CandMsg cands) (punch_waiters n) (\<lambda>w n. n\<lparr>punch_waiters := w\<rparr>) n)"
| "on_sig e io answer_offer sender (SdpOffer sid sdp) n =
     (case answer_offer sdp of
        None \<Rightarrow> ([], n)
      | Some answer \<Rightarrow>
          (let (_, n) = send_signal e sender (SdpAnswer sid answer) n
           in ([RtcThread sdp sender], n)))"
| "on_sig e io answer_offer sender (SdpAnswer sid sdp) n =
     ([], answer_waiter sid (StrMsg sdp) (rtc_waiters n) (\<lambda>w n. n\<lparr>rtc_waiters := w\<rparr>) n)"
| "on_sig e io answer_offer sender (Bye _) n = ([], drop_live sender n)"
| "on_sig e io answer_offer sender _ n = ([], n)"

definition on_signal ::
  "env \<Rightarrow> ladder_io \<Rightarrow> (string \<Rightarrow> string option) \<Rightarrow> string \<Rightarrow> string \<Rightarrow> net \<Rightarrow> spawned list \<times> net" where
  "on_signal e io answer_offer sender payload n =
     (case signal_from_str e payload of
        None \<Rightarrow> ([], n)
      | Some sig \<Rightarrow> on_sig e io answer_offer sender sig n)"

section \<open>What a signal can change\<close>

text \<open>
  \<open>signalled n n'\<close>: a signal never touches who this device is, its keys and session, the peer
  table, the registered senders, subscriptions and clipboard, and it starts no negotiation.
\<close>

definition signalled :: "net \<Rightarrow> net \<Rightarrow> bool" where
  "signalled n n' =
     (identity n' = identity n \<and> key n' = key n \<and> peers n' = peers n \<and> ws_conns n' = ws_conns n \<and>
      token n' = token n \<and> username n' = username n \<and> server_url n' = server_url n \<and>
      subs n' = subs n \<and> clip_last n' = clip_last n \<and> clip_active n' = clip_active n \<and>
      clip_pending n' = clip_pending n \<and> control n' = control n \<and>
      (\<forall>k. hm_get (punch_waiters n') k = hm_get (punch_waiters n) k \<or> hm_get (punch_waiters n') k = None) \<and>
      (\<forall>k. hm_get (rtc_waiters n') k = hm_get (rtc_waiters n) k \<or> hm_get (rtc_waiters n') k = None) \<and>
      (\<forall>k. hm_get (p2p_conns n') k = hm_get (p2p_conns n) k \<or> hm_get (p2p_conns n') k = None))"

lemma signalled_refl: "signalled n n"
  by (simp add: signalled_def)

lemma signalled_trans: "signalled n n' \<Longrightarrow> signalled n' n'' \<Longrightarrow> signalled n n''"
  unfolding signalled_def by metis

lemma traffic_signalled: "traffic n n' \<Longrightarrow> signalled n n'"
  by (simp add: signalled_def traffic_fields)

lemma send_signal_traffic: "send_signal e k sig n = (r, n') \<Longrightarrow> traffic n n'"
  by (auto simp: send_signal_def dest: registry_traffic(4) split: option.splits sum.splits)

lemma update_ws_open_traffic: "update_ws_open e b n = (r, n') \<Longrightarrow> traffic n n'"
  by (auto simp: update_ws_open_def dest: registry_traffic(6) split: option.splits)

lemma ws_connect_signalled: "ws_connect e a b c ip port n = (r, n') \<Longrightarrow> signalled n n'"
  by (auto simp: ws_connect_def ws_start_def new_channel_def signalled_def Let_def split: option.splits)

lemma answer_waiter_signalled:
  "signalled n (answer_waiter sid m (punch_waiters n) (\<lambda>w n. n\<lparr>punch_waiters := w\<rparr>) n)"
  "signalled n (answer_waiter sid m (rtc_waiters n) (\<lambda>w n. n\<lparr>rtc_waiters := w\<rparr>) n)"
  by (auto simp: answer_waiter_def signalled_def chan_send_def split: option.splits)

lemma drop_live_signalled: "signalled n (drop_live k n)"
  by (auto simp: drop_live_def signalled_def emit_def Let_def)

lemma start_ws_traffic: "on_sig e io acc s (StartWs sid) n = (sp, n') \<Longrightarrow> traffic n n' \<and> sp = []"
  by (auto simp: Let_def split: prod.splits intro: traffic_trans
      dest!: send_signal_traffic update_ws_open_traffic)

lemma on_sig_signalled: "on_sig e io acc s sig n = (sp, n') \<Longrightarrow> signalled n n'"
proof (cases sig)
  case (StartWs sid)
  then show "on_sig e io acc s sig n = (sp, n') \<Longrightarrow> ?thesis"
    using start_ws_traffic traffic_signalled by blast
qed (auto simp: Let_def signalled_refl answer_waiter_signalled drop_live_signalled
      split: prod.splits sum.splits option.splits
      dest: ws_connect_signalled send_signal_traffic [THEN traffic_signalled])

section \<open>Properties\<close>

text \<open>C22: what a signal can do is confined, whoever sends it and whatever it says. The device's
  identity, message key and session, the peer table, the registered senders, the
  subscriptions and the clipboard state stay as they are; a pending negotiation can be
  answered but none is started or re-targeted; and a live link can be dropped but none
  appears or changes.\<close>

theorem signal_confined: "signalled n (snd (on_signal e io acc sender payload n))"
  by (cases "signal_from_str e payload")
    (auto simp: on_signal_def signalled_refl intro: on_sig_signalled prod.collapse [symmetric])

lemma answer_waiter_delivers:
  assumes "hm_get (punch_waiters n) sid = Some c" "hm_get (chans n) c = Some []"
  shows "fst (try_recv c (answer_waiter sid m (punch_waiters n) (\<lambda>w n. n\<lparr>punch_waiters := w\<rparr>) n)) = Some m"
    and "hm_get (punch_waiters (answer_waiter sid m (punch_waiters n) (\<lambda>w n. n\<lparr>punch_waiters := w\<rparr>) n)) sid = None"
  using assms by (simp_all add: answer_waiter_def chan_send_def try_recv_def)

lemma answer_waiter_none: "hm_get w sid = None \<Longrightarrow> answer_waiter sid m w f n = n"
  by (simp add: answer_waiter_def)

text \<open>C19: the hole-punch negotiation exchanges exactly the candidates. A responder that can
  gather candidates and is logged in starts punching toward the offered ones and makes one
  request, which asks the registry to relay its own candidates under the offer's session id.
  When the relayed answer reaches the initiator, the ladder rung waiting under that id
  receives those candidates, the negotiation is over, and a repeated answer changes nothing.\<close>

theorem punch_negotiation:
  assumes "signal_from_str e offer = Some (PunchOffer sid cands t)"
    and "gather_candidates (io_bound io) (io_stun_server io) (io_reflexive io) r = Some mine"
    and "server_url r = Some url" "token r = Some tok"
    and "signal_to_value e (PunchAnswer sid mine 0) = Inr data"
    and "signal_from_str e' answer = Some (PunchAnswer sid mine t')"
    and "hm_get (punch_waiters n) sid = Some c" "hm_get (chans n) c = Some []"
  shows "let (started, r') = on_signal e io acc sender offer r;
           n' = snd (on_signal e' io' acc' other answer n)
         in started = [PunchThread cands sender] \<and>
            (\<exists>reply. out r' = out r @ [Http (http_post (base url @ ''/signal'') (bearer tok)
               (obj [(''from'', JStr (i_node_id (identity r))), (''to'', JStr sender),
                 (''type'', JStr ''signal''), (''data'', data)])) reply]) \<and>
            fst (try_recv c n') = Some (CandMsg mine) \<and>
            on_signal e' io' acc' other answer n' = ([], n')"
proof -
  have out: "\<exists>reply. out (snd (drop_reply (checked_call e q r))) = out r @ [Http q reply]" for q
    by (auto simp: drop_reply_def checked_call_def http_call_def effect_def advance_def Let_def
        split: http_reply.splits)
  note a = answer_waiter_delivers [OF assms(7,8), of "CandMsg mine"]
  show ?thesis
    using assms(1-6) out a(1) answer_waiter_none [OF a(2)]
    by (simp add: on_signal_def send_signal_def registry_send_signal_def Let_def split: prod.split)
      (metis snd_conv)
qed

text \<open>A device that is logged in, with a codec for the two punch signals.\<close>

definition sample_cand :: candidate where
  "sample_cand = \<lparr>c_ip = ''10.0.0.2'', c_port = 7, c_kind = ''host''\<rparr>"

definition sample_signal_env :: env where
  "sample_signal_env = sample_env\<lparr>signal_to_value := (\<lambda>s. Inr (JStr ''sig'')),
     signal_from_str := (\<lambda>s. Some (if s = ''offer'' then PunchOffer ''u'' [] 0 else PunchAnswer ''u'' [sample_cand] 0))\<rparr>"

definition sample_io :: ladder_io where
  "sample_io = \<lparr>io_connect = None, io_timeout = None, io_handshake = None, io_bound = Some 7,
     io_stun_server = None, io_reflexive = None, io_offer = None, io_answer = (\<lambda>_. False)\<rparr>"

definition sample_logged_in :: net where
  "sample_logged_in = sample_net\<lparr>server_url := Some ''h'', token := Some ''t''\<rparr>"

theorem punch_negotiation_witness:
  "fst (try_recv 4 (snd (on_signal sample_signal_env sample_io (\<lambda>_. None) ''B'' ''answer''
     (sample_net\<lparr>punch_waiters := [(''u'', 4)], chans := [(4, [])]\<rparr>)))) = Some (CandMsg [sample_cand])"
proof -
  let ?n = "sample_net\<lparr>punch_waiters := [(''u'', 4)], chans := [(4, [])]\<rparr>"
  have g: "gather_candidates (io_bound sample_io) (io_stun_server sample_io) (io_reflexive sample_io)
      sample_logged_in = Some [sample_cand]"
    by (simp add: gather_candidates_def sample_io_def sample_logged_in_def sample_net_def sample_cand_def)
  have s: "signal_from_str sample_signal_env ''offer'' = Some (PunchOffer ''u'' [] 0)"
    "signal_from_str sample_signal_env ''answer'' = Some (PunchAnswer ''u'' [sample_cand] 0)"
    "signal_to_value sample_signal_env (PunchAnswer ''u'' [sample_cand] 0) = Inr (JStr ''sig'')"
    by (simp_all add: sample_signal_env_def)
  have l: "server_url sample_logged_in = Some ''h''" "token sample_logged_in = Some ''t''"
    "hm_get (punch_waiters ?n) ''u'' = Some 4" "hm_get (chans ?n) 4 = Some []"
    by (simp_all add: sample_logged_in_def hm_simps)
  from punch_negotiation [OF s(1) g l(1,2) s(3,2) l(3,4), of "\<lambda>_. None" "''A''" sample_io "\<lambda>_. None" "''B''"]
  show ?thesis by (auto simp: Let_def split: prod.splits)
qed

end
