(* ===== verification/Ops.thy ===== *)
theory Ops
  imports Signals
begin

text \<open>
  The engine's calls as one set of operations on the shared state: what arrives from the
  network, the turns of the background loops, the public methods of \<open>Engine\<close>, and the single
  actions of a connection ladder. Each leaves the ownership of the link channels alone
  (\<open>neutral\<close>).
\<close>

section \<open>Operations\<close>

datatype net_op =
    Arrive net_input
  | Beacon "(bytes \<times> ipv4) option"
  | ScanLan
  | HeartbeatTurn
  | ClipboardTurn
  | NetworkTurn
  | Login string string string
  | Register string string string
  | DevLogin string string
  | SetKey string
  | UpdateKey string string
  | Logout
  | Refresh
  | NetworkChanged "string option"
  | AddPeer string string u16 u16 u16
  | RemovePeer string
  | FirewallCheck
  | ReportFirewall
  | UpdateWsOpen bool
  | FcmSelftest
  | Send string string
  | SendControl string string
  | SetTransport string
  | EnableClip
  | DisableClip
  | ShareNotification string string "string option"
  | ShareCall string "string option" string
  | ShareHistory string
  | SetApps string
  | RequestApps string
  | SubscribeApps string string
  | ShareAppNotification string string string string
  | Report string string "string option"
  | LadderPing string
  | DrawUuid
  | SendSignal string signal
  | DropPunchWaiter string
  | DropRtcWaiter string

text \<open>\<open>LadderPing\<close> is the send of \<open>udp_ping_connect\<close>.\<close>

definition ladder_ping :: "env \<Rightarrow> string \<Rightarrow> net \<Rightarrow> (string + unit) \<times> net" where
  "ladder_ping e k n = send_payload e (i_name (identity n)) k ''UDP''
     (json_to_string e (obj [(''type'', JStr ''p2p_ping''), (''from'', JStr (i_node_id (identity n)))])) n"

fun net_step :: "env \<Rightarrow> net_op \<Rightarrow> net \<Rightarrow> net" where
  "net_step e (Arrive x) n = recv_step e n x"
| "net_step e (Beacon r) n = discovery_recv e r n"
| "net_step e ScanLan n = scan_lan e n"
| "net_step e HeartbeatTurn n = heartbeat e n"
| "net_step e ClipboardTurn n = clip_watch e n"
| "net_step e NetworkTurn n = ip_watch e n"
| "net_step e (Login url u p) n = snd (auth_login e url u p n)"
| "net_step e (Register url u p) n = snd (auth_register e url u p n)"
| "net_step e (DevLogin u p) n = snd (dev_login e u p n)"
| "net_step e (SetKey p) n = snd (set_encryption_key e p n)"
| "net_step e (UpdateKey p w) n = snd (update_encryption_key e p w n)"
| "net_step e Logout n = logout n"
| "net_step e Refresh n = snd (refresh_from_server e n)"
| "net_step e (NetworkChanged ip) n = network_changed e ip n"
| "net_step e (AddPeer nm ip t u w) n = snd (add_manual_peer nm ip t u w n)"
| "net_step e (RemovePeer k) n = remove_peer k n"
| "net_step e FirewallCheck n = snd (firewall_check e n)"
| "net_step e ReportFirewall n = report_firewall e n"
| "net_step e (UpdateWsOpen b) n = snd (update_ws_open e b n)"
| "net_step e FcmSelftest n = snd (fcm_selftest e n)"
| "net_step e (Send k t) n = snd (send e k t n)"
| "net_step e (SendControl k m) n = snd (send_control e k m n)"
| "net_step e (SetTransport t) n = set_directed_transport t n"
| "net_step e EnableClip n = enable_clipboard_sync e n"
| "net_step e DisableClip n = disable_clipboard_sync n"
| "net_step e (ShareNotification t b a) n = share_notification e t b a n"
| "net_step e (ShareCall c m s) n = share_call_notification e c m s n"
| "net_step e (ShareHistory h) n = share_call_history e h n"
| "net_step e (SetApps a) n = set_installed_apps a n"
| "net_step e (RequestApps k) n = snd (request_apps e k n)"
| "net_step e (SubscribeApps k a) n = snd (subscribe_apps e k a n)"
| "net_step e (ShareAppNotification p a t b) n = share_app_notification e p a t b n"
| "net_step e (Report k s d) n = emit (ConnectProgress k s d) n"
| "net_step e (LadderPing k) n = snd (ladder_ping e k n)"
| "net_step e DrawUuid n = advance n"
| "net_step e (SendSignal k sig) n = snd (send_signal e k sig n)"
| "net_step e (DropPunchWaiter sid) n = n\<lparr>punch_waiters := hm_remove sid (punch_waiters n)\<rparr>"
| "net_step e (DropRtcWaiter sid) n = n\<lparr>rtc_waiters := hm_remove sid (rtc_waiters n)\<rparr>"

section \<open>What every operation leaves alone\<close>

text \<open>
  Who owns the link channels is as before, no stage of a connection set-up is reported and no
  negotiation that was not pending is pending.
\<close>

definition neutral :: "net \<Rightarrow> net \<Rightarrow> bool" where
  "neutral n n' = (ws_conns n' = ws_conns n \<and> next_chan n' = next_chan n \<and>
     hm_keys (chans n') = hm_keys (chans n) \<and> climbs [] n n')"

lemma neutral_refl [simp, intro]: "neutral n n"
  by (simp add: neutral_def climbs_refl)

lemma neutral_trans: "neutral n n' \<Longrightarrow> neutral n' n'' \<Longrightarrow> neutral n n''"
  by (auto simp: neutral_def intro: climbs_quiet)

lemma neutral_same:
  "\<lbrakk>ws_conns n' = ws_conns n; next_chan n' = next_chan n; hm_keys (chans n') = hm_keys (chans n);
    out n' = out n; punch_waiters n' = punch_waiters n; rtc_waiters n' = rtc_waiters n\<rbrakk> \<Longrightarrow> neutral n n'"
  by (simp add: neutral_def climbs_same)

lemma guarded_neutral: "guarded n n' \<Longrightarrow> climbs [] n n' \<Longrightarrow> neutral n n'"
  by (simp add: neutral_def guarded_def)

lemma traffic_neutral: "traffic n n' \<Longrightarrow> neutral n n'"
  by (simp add: guarded_neutral traffic_guarded traffic_climbs)

lemma climbs_effect: "stage_of x = None \<Longrightarrow> climbs [] n (effect x n)"
  by (rule climbs_same) (simp_all add: effect_def, simp add: stages_def List.map_filter_def)

lemma neutral_effect [simp]:
  "stage_of x = None \<Longrightarrow> neutral n (effect x n)" "stage_of (Emit ev) = None \<Longrightarrow> neutral n (emit ev n)"
  using climbs_effect [of x n] climbs_effect [of "Emit ev" n]
  by (simp_all add: neutral_def effect_def emit_def)

lemma neutral_update [simp]:
  "neutral n (n\<lparr>server_url := a, token := b, username := c\<rparr>)" "neutral n (n\<lparr>username := c, key := d\<rparr>)"
  "neutral n (n\<lparr>key := d\<rparr>)" "neutral n (n\<lparr>token := b, key := d\<rparr>)" "neutral n (n\<lparr>peers := f\<rparr>)"
  "neutral n (n\<lparr>identity := g\<rparr>)" "neutral n (advance n)" "neutral n (n\<lparr>clip_last := t\<rparr>)"
  "neutral n (n\<lparr>clip_active := x\<rparr>)" "neutral n (n\<lparr>clip_pending := y\<rparr>)"
  "neutral n (n\<lparr>installed_apps := t\<rparr>)" "neutral n (n\<lparr>directed_transport := t\<rparr>)"
  "neutral n (n\<lparr>p2p_conns := p\<rparr>)" "neutral n (n\<lparr>subs := z\<rparr>)"
  by (rule neutral_same; simp add: advance_def)+

text \<open>The same facts one step further on.\<close>

lemmas neutral_after = neutral_trans [OF _ neutral_update(1)] neutral_trans [OF _ neutral_update(2)]
  neutral_trans [OF _ neutral_update(3)] neutral_trans [OF _ neutral_update(4)]
  neutral_trans [OF _ neutral_update(5)] neutral_trans [OF _ neutral_update(6)]
  neutral_trans [OF _ neutral_update(7)] neutral_trans [OF _ neutral_update(8)]
  neutral_trans [OF _ neutral_update(9)] neutral_trans [OF _ neutral_update(10)]
  neutral_trans [OF _ neutral_effect(1)] neutral_trans [OF _ neutral_effect(2)]

lemma neutral_drop_waiter [simp]:
  "neutral n (n\<lparr>punch_waiters := hm_remove sid (punch_waiters n)\<rparr>)"
  "neutral n (n\<lparr>rtc_waiters := hm_remove sid (rtc_waiters n)\<rparr>)"
  by (auto simp: neutral_def climbs_def hm_get_fun_remove)

lemma live_neutral [simp]: "neutral n (drop_live k n)" "neutral n (touch_live e k n)" "neutral n (mark_live e k t a n)"
  by (auto simp: drop_live_def touch_live_def mark_live_def read_clock_def Let_def intro!: neutral_after
      intro: neutral_update(13) neutral_trans [OF neutral_update(7) neutral_update(13)] split: option.split)

lemma emit_peers_neutral: "neutral n m \<Longrightarrow> neutral n (emit_peers m)"
  by (simp add: emit_peers_def neutral_after)

lemma do_auth_neutral: "do_auth e path url u p n = (r, n') \<Longrightarrow> neutral n n'"
  by (auto simp: do_auth_def Let_def split: if_splits prod.splits sum.splits
      dest!: traffic_neutral [OF registry_traffic(1)] intro!: neutral_after)

lemma key_ops_neutral:
  "dev_login e u p n = (r, n') \<Longrightarrow> neutral n n'" "set_encryption_key e p n = (r, n') \<Longrightarrow> neutral n n'"
  "update_encryption_key e p w n = (r, n') \<Longrightarrow> neutral n n'" "neutral n (logout n)"
  by (auto simp: dev_login_def set_encryption_key_def update_encryption_key_def logout_def Let_def
      split: if_splits option.splits prod.splits sum.splits bool.splits
      dest!: traffic_neutral [OF registry_traffic(2)] intro: neutral_trans)

lemma refresh_from_server_neutral: "refresh_from_server e n = (r, n') \<Longrightarrow> neutral n n'"
proof -
  have "neutral n (apply_registry_peers ds m)" if "neutral n m" for ds m
    using that by (simp add: apply_registry_peers_def Let_def emit_peers_neutral neutral_after)
  then show "refresh_from_server e n = (r, n') \<Longrightarrow> ?thesis"
    by (auto simp: refresh_from_server_def Let_def split: option.splits prod.splits sum.splits
        dest!: traffic_neutral [OF registry_traffic(3)] traffic_neutral [OF registry_traffic(9)]
        intro: neutral_trans [OF neutral_update(7)] neutral_trans [OF neutral_update(7) neutral_trans])
qed

lemma network_changed_neutral: "neutral n (network_changed e ip n)"
proof -
  have "neutral n (snd (refresh_from_server e m))" if "neutral n m" for m
    using refresh_from_server_neutral [of e m] that by (metis neutral_trans prod.collapse)
  moreover have "neutral n ((advance n)\<lparr>identity := g\<rparr>)" for g
    by (simp add: neutral_after)
  ultimately show ?thesis by (auto simp: network_changed_def Let_def split: option.splits)
qed

lemma reachability_neutral:
  "firewall_check e n = (r1, n') \<Longrightarrow> neutral n n'" "neutral n (report_firewall e n)"
  "fcm_selftest e n = (r3, n') \<Longrightarrow> neutral n n'"
proof -
  note net = registry_traffic [THEN traffic_neutral]
  have state: "neutral n (snd (update_device_state e url tok i a b c d m))" if "neutral n m" for url tok i a b c d m
    using that net(6) neutral_trans by (metis prod.collapse)
  have probe: "neutral n n'" if "health_ok e url n = (b, n1)" "probe_inbound e url tok i cs n1 = (p, n')"
    for url b n1 tok i cs p n' using net(8) [OF that(1)] net(7) [OF that(2)] by (rule neutral_trans)
  show "firewall_check e n = (r1, n') \<Longrightarrow> neutral n n'"
    using net(8) probe state
    by (auto simp: firewall_check_def Let_def split: option.splits prod.splits sum.splits bool.splits)
      (metis snd_conv)+
  show "neutral n (report_firewall e n)"
    using net(8) probe state
    by (auto simp: report_firewall_def Let_def split: option.split prod.split sum.split bool.split)
  show "fcm_selftest e n = (r3, n') \<Longrightarrow> neutral n n'"
    using net(5) neutral_trans [OF neutral_update(7)]
    by (auto simp: fcm_selftest_def Let_def split: option.splits prod.splits sum.splits)
qed

lemma unreserved_climbs: "unreserved n n' \<Longrightarrow> guarded n n' \<Longrightarrow> climbs [] n n'"
proof -
  have r: "\<not> reserved_event x \<Longrightarrow> stage_of x = None" for x by (cases x rule: stage_of.cases) simp_all
  assume "unreserved n n'" "guarded n n'"
  then obtain xs where "out n' = out n @ xs" "list_all (\<lambda>x. stage_of x = None) xs"
    unfolding unreserved_def by (metis (mono_tags, lifting) list.pred_mono_strong r)
  then show "climbs [] n n'" using \<open>guarded n n'\<close> stages_none by (simp add: climbs_def guarded_def)
qed

lemma handle_incoming_neutral: "neutral n (handle_incoming e env ip p n)"
proof (rule guarded_neutral [OF handle_incoming_guarded])
  have "climbs [] n m" if "dispatch e s ip p t n = (b, m)" for s t b m
    using unreserved_climbs [OF dispatch_unreserved dispatch_guarded] that by (metis snd_conv)
  moreover have "climbs [] n (emit (MessageReceived x) (advance m))" if "climbs [] n m" for x m
    using climbs_quiet(1) [OF that climbs_quiet(1) [OF channel_climbs(3) climbs_effect]]
    by (simp add: emit_def effect_def)
  ultimately show "climbs [] n (handle_incoming e env ip p n)"
    by (auto simp: handle_incoming_def envelope_to_message_def read_clock_def Let_def climbs_refl
        split: option.splits prod.splits bool.splits)
qed

lemma recv_step_neutral: "neutral n (recv_step e n x)"
  by (cases x) (simp_all add: tcp_recv_def udp_recv_def handle_incoming_neutral Let_def
      split: option.split prod.split)

lemma discovery_recv_neutral: "neutral n (discovery_recv e r n)"
proof -
  have "neutral n (emit_peers (n\<lparr>peers := x\<rparr>))" for x by (rule emit_peers_neutral) simp
  then show ?thesis
    using neutral_trans [OF _ traffic_neutral [OF send_beacon_traffic]]
    by (auto simp: discovery_recv_def Let_def split: option.split)
qed

lemma foldl_neutral: "(\<And>n x. neutral n (f n x)) \<Longrightarrow> neutral n (foldl f n xs)"
  by (induction xs arbitrary: n) (auto intro: neutral_trans)

lemma heartbeat_neutral: "neutral n (heartbeat e n)"
proof -
  have "neutral n (beat_one e p t n l)" for p t n l
    by (auto simp: beat_one_def traffic_neutral [OF send_control_to_traffic] split: prod.split)
  then show ?thesis
    unfolding heartbeat_def read_clock_def Let_def prod.case
    by (rule neutral_trans [OF neutral_update(7) foldl_neutral])
qed

lemma clip_turn_neutral: "neutral n (clip_watch e n)" "neutral n (ip_watch e n)"
  "neutral n (enable_clipboard_sync e n)"
proof -
  have c: "neutral n m" if "read_clipboard e n = (r, m)" for r m
    using that by (auto simp: read_clipboard_def split: if_splits)
  have "neutral m (broadcast_control e t (m\<lparr>clip_last := x\<rparr>))" for m t x
    by (rule neutral_trans [OF neutral_update(8) traffic_neutral [OF broadcast_control_traffic]])
  then show "neutral n (clip_watch e n)"
    using c by (auto simp: clip_watch_def split: prod.split option.split intro: neutral_trans)
  show "neutral n (ip_watch e n)"
    by (auto simp: ip_watch_def Let_def intro: neutral_trans [OF neutral_update(7)])
  show "neutral n (enable_clipboard_sync e n)"
    using c by (auto simp: enable_clipboard_sync_def Let_def split: prod.split option.split intro!: neutral_after)
qed

lemma sends_traffic:
  "traffic n (snd (send e k t n))" "traffic n (snd (request_apps e k n))"
  "traffic n (snd (subscribe_apps e k a n))" "traffic n (snd (ladder_ping e k n))"
  using send_traffic [of e k t n]
  by (simp_all add: request_apps_def subscribe_apps_def send_control_traffic ladder_ping_def
      send_payload_traffic) (metis prod.collapse)

lemma signals_traffic:
  "traffic n (snd (send_signal e k sig n))" "traffic n (snd (update_ws_open e b n))"
  using send_signal_traffic [of e k sig n] update_ws_open_traffic [of e b n] by (metis prod.collapse)+

fun reports :: "net_op \<Rightarrow> bool" where
  "reports (Report _ _ _) = True"
| "reports _ = False"

fun_cases reportsE: "reports x"

lemma net_step_neutral: "\<not> reports x \<Longrightarrow> neutral n (net_step e x n)"
proof -
  assume x: "\<not> reports x"
  have p: "neutral n (snd r)" if "\<And>a n'. r = (a, n') \<Longrightarrow> neutral n n'" for r :: "'r \<times> net"
    using that by (cases r) simp
  from x show ?thesis
    by (cases x) (simp_all add: recv_step_neutral discovery_recv_neutral traffic_neutral [OF scan_lan_traffic]
        heartbeat_neutral clip_turn_neutral auth_login_def auth_register_def key_ops_neutral
        p [OF do_auth_neutral] p [OF key_ops_neutral(1)] p [OF key_ops_neutral(2)] p [OF key_ops_neutral(3)]
        p [OF refresh_from_server_neutral] network_changed_neutral remove_peer_def emit_peers_neutral
        reachability_neutral p [OF reachability_neutral(1)] p [OF reachability_neutral(3)]
        add_manual_peer_def Let_def set_directed_transport_def disable_clipboard_sync_def set_installed_apps_def
        sends_traffic [THEN traffic_neutral] signals_traffic [THEN traffic_neutral]
        send_control_traffic [THEN traffic_neutral] share_traffic [THEN traffic_neutral] split: option.split)
qed

end
