(* ===== verification/System.thy ===== *)
theory System
  imports Ops Link_Delivery
begin

text \<open>
  The whole program as a transition system. A state is the shared state with the threads that
  hold a channel receiver: WebSocket connections (also between their two closing steps),
  punched and WebRTC drivers, and calls that wait for an answer. A step is one operation of
  the engine, one turn of a link thread, or the opening or end of a thread; every
  interleaving of them is a run.
\<close>

section \<open>States and steps\<close>

datatype thread =
    WsT ws_conn
  | WsGone ws_conn "string option"
  | PunchT punch_conn
  | RtcT rtc_conn
  | Caller nat

type_synonym sys = "net \<times> thread list"

definition started :: "spawned list \<Rightarrow> thread list" where
  "started sp = List.map_filter (\<lambda>s. case s of WsThread h w \<Rightarrow> Some (WsT w) | _ \<Rightarrow> None) sp"

text \<open>
  The punch and RTC threads a signal or a rung spawns open their links in steps of their own.
  \<open>greet\<close> restricts the runs to those in which a WebSocket peer announces one name only.
\<close>

inductive sys_step :: "env \<Rightarrow> bool \<Rightarrow> sys \<Rightarrow> sys \<Rightarrow> bool" for e greet where
  call: "sys_step e greet (n, ts) (net_step e x n, ts)"
| signal: "on_signal e io acc s pay n = (sp, n') \<Longrightarrow> sys_step e greet (n, ts) (n', started sp @ ts)"
| ws_open: "ws_start e n = (h, w, n') \<Longrightarrow> sys_step e greet (n, ts) (n', WsT w # ts)"
| ws_turn: "ws_turn e w r ok n = (False, w', sent, n') \<Longrightarrow> greet \<longrightarrow> first_greeting e w r \<Longrightarrow>
    sys_step e greet (n, pre @ WsT w # post) (n', pre @ WsT w' # post)"
| ws_exit: "ws_turn e w r ok n = (True, w', sent, n1) \<Longrightarrow> greet \<longrightarrow> first_greeting e w r \<Longrightarrow>
    ws_unregister w' n1 = (gone, n') \<Longrightarrow>
    sys_step e greet (n, pre @ WsT w # post) (n', pre @ WsGone w' gone # post)"
| ws_finish: "sys_step e greet (n, pre @ WsGone w gone # post) (ws_finish w gone n, pre @ post)"
| punch_open: "punch_start e now a k n = (p, n') \<Longrightarrow>
    sys_step e greet (n, ts) (n', (case p of None \<Rightarrow> [] | Some p \<Rightarrow> [PunchT p]) @ ts)"
| punch_turn: "punch_turn e p i n = Some (False, sent, p', n') \<Longrightarrow>
    sys_step e greet (n, pre @ PunchT p # post) (n', pre @ PunchT p' # post)"
| punch_end: "punch_turn e p i n = Some (True, sent, p', n') \<Longrightarrow>
    sys_step e greet (n, pre @ PunchT p # post) (punch_close p' n', pre @ post)"
| rtc_open: "rtc_start k n = (r, n') \<Longrightarrow> sys_step e greet (n, ts) (n', RtcT r # ts)"
| rtc_turn: "rtc_turn e r i n = (False, sent, r', n') \<Longrightarrow>
    sys_step e greet (n, pre @ RtcT r # post) (n', pre @ RtcT r' # post)"
| rtc_end: "rtc_turn e r i n = (True, sent, r', n') \<Longrightarrow>
    sys_step e greet (n, pre @ RtcT r # post) (rtc_close r' n', pre @ post)"
| pull_begin: "clip_pull_begin e k n = (r, n') \<Longrightarrow>
    sys_step e greet (n, ts) (n', (case r of Inl _ \<Rightarrow> [] | Inr c \<Rightarrow> [Caller c]) @ ts)"
| pull_end: "clip_pull_end k c n = (r, n') \<Longrightarrow>
    sys_step e greet (n, pre @ Caller c # post) (n', pre @ post)"
| offer_punch: "new_channel n = (c, n') \<Longrightarrow>
    sys_step e greet (n, ts) (n'\<lparr>punch_waiters := hm_insert sid c (punch_waiters n')\<rparr>, Caller c # ts)"
| offer_rtc: "new_channel n = (c, n') \<Longrightarrow>
    sys_step e greet (n, ts) (n'\<lparr>rtc_waiters := hm_insert sid c (rtc_waiters n')\<rparr>, Caller c # ts)"
| await: "try_recv c n = (m, n') \<Longrightarrow>
    sys_step e greet (n, pre @ Caller c # post) (n', pre @ Caller c # post)"
| close_rx: "sys_step e greet (n, pre @ Caller c # post) (chan_drop c n, pre @ post)"

text \<open>Runs start when \<open>Engine::start\<close> has succeeded.\<close>

inductive reachable :: "env \<Rightarrow> bool \<Rightarrow> sys \<Rightarrow> bool" for e greet where
  start: "engine_start e tcp udp ws disco = Inr n \<Longrightarrow> reachable e greet (n, [])"
| step: "reachable e greet s \<Longrightarrow> sys_step e greet s s' \<Longrightarrow> reachable e greet s'"

inductive_cases no_thread_step: "sys_step e greet (n, []) s'"

inductive_simps reachable_simps: "reachable e greet s"

section \<open>The invariants of one step\<close>

fun thread_sig :: "thread \<Rightarrow> link_sig" where
  "thread_sig (WsT w) = ws_sig w"
| "thread_sig (WsGone w g) = (wc_id w, wc_chan w, None)"
| "thread_sig (PunchT p) = punch_sig p"
| "thread_sig (RtcT r) = rtc_sig r"
| "thread_sig (Caller c) = (0, c, None)"

definition owned :: "sys \<Rightarrow> bool" where
  "owned s = links_ok (fst s) (map thread_sig (snd s))"

lemma links_ok_neutral: "neutral n n' \<Longrightarrow> links_ok n sigs \<Longrightarrow> links_ok n' sigs"
  by (simp add: links_ok_def neutral_def hm_keys_dom [symmetric])

text \<open>A thread that serves nobody owns no entry, and its channel can go.\<close>

lemma links_ok_idle:
  assumes "links_ok n (pre @ (i, c, None) # post)"
  shows "hm_get (ws_conns n) k \<noteq> Some (j, c)"
proof
  assume "hm_get (ws_conns n) k = Some (j, c)"
  then have "(j, c, Some k) \<in> set (pre @ (i, c, None) # post)" by (rule links_ok_entry [OF assms])
  moreover have "(j, c, Some k) \<notin> set (pre @ post)"
    using links_ok_other [OF assms, of "(j, c, Some k)"] by auto
  ultimately show False by simp
qed

lemma links_ok_idle_drop: "links_ok n (pre @ (i, c, None) # post) \<Longrightarrow> links_ok (chan_drop c n) (pre @ post)"
  by (rule links_ok_drop) (auto dest: links_ok_idle)

lemma links_ok_retire:
  assumes "links_ok n (pre @ (i, c, p) # post)" "\<And>k j. hm_get (ws_conns n) k \<noteq> Some (j, c)"
  shows "links_ok n (pre @ (i, c, None) # post)"
  using assms by (fastforce simp: links_ok_def)

lemma ws_unregister_links:
  assumes "links_ok n (pre @ ws_sig w # post)" "ws_unregister w n = (g, n')"
  shows "links_ok n' (pre @ (wc_id w, wc_chan w, None) # post)"
proof -
  let ?u = "unregister (wc_peer w) (wc_id w) n"
  have g: "guarded ?u n'"
    using assms(2) by (auto simp: ws_unregister_def unregister_def owns_def emit_contract split: option.splits)
  have "hm_get (ws_conns n') k \<noteq> Some (j, wc_chan w)" for k j
    using links_ok_unregister(2) [OF assms(1)] g by (simp add: guarded_def)
  then show ?thesis
    by (rule links_ok_retire [OF links_ok_guarded [OF g links_ok_unregister(1) [OF assms(1)]]])
qed

lemma ws_finish_links:
  assumes "links_ok n (pre @ (i, wc_chan w, None) # post)"
  shows "links_ok (ws_finish w g n) (pre @ post)"
proof -
  have "neutral n (case g of None \<Rightarrow> n | Some k \<Rightarrow> drop_live k n)" by (simp split: option.split)
  from links_ok_idle_drop [OF links_ok_neutral [OF this assms]] show ?thesis by (simp add: ws_finish_def)
qed

lemma started_simps [simp]:
  "started [] = []" "started [PunchThread a b] = []" "started [RtcThread c b] = []"
  "started [WsThread h w] = [WsT w]"
  by (simp_all add: started_def List.map_filter_def)

lemma answer_waiter_neutral:
  "neutral n (answer_waiter sid m (punch_waiters n) (\<lambda>w n. n\<lparr>punch_waiters := w\<rparr>) n)"
  "neutral n (answer_waiter sid m (rtc_waiters n) (\<lambda>w n. n\<lparr>rtc_waiters := w\<rparr>) n)"
  by (auto simp: answer_waiter_def chan_send_def neutral_def climbs_def hm_get_fun_remove hm_keys_insert_old
      split: option.splits)

lemma send_signal_neutral: "send_signal e k sig n = (r, n') \<Longrightarrow> neutral n n'"
  by (rule traffic_neutral [OF send_signal_traffic])

lemma on_sig_neutral:
  assumes "on_sig e io acc s sig n = (sp, n')" "\<And>a b c. sig \<noteq> WsReady a b c"
  shows "neutral n n' \<and> started sp = []"
proof (cases sig)
  case (StartWs sid)
  then show ?thesis using assms(1) start_ws_traffic traffic_neutral by (metis started_simps(1))
next
  case (PunchOffer sid cands t)
  then show ?thesis using assms(1)
    by (cases "gather_candidates (io_bound io) (io_stun_server io) (io_reflexive io) n")
      (auto simp: Let_def split: prod.splits dest: send_signal_neutral)
next
  case (SdpOffer sid sdp)
  then show ?thesis using assms(1)
    by (cases "acc sdp") (auto simp: Let_def split: prod.splits dest: send_signal_neutral)
qed (use assms answer_waiter_neutral in auto)

lemma ws_connect_links:
  assumes "links_ok n sigs" "ws_connect e a b c ip port n = (r, n')"
  shows "links_ok n' ((case r of Inl _ \<Rightarrow> [] | Inr (h, w) \<Rightarrow> [ws_sig w]) @ sigs)"
proof -
  obtain h w m where s: "ws_start e n = (h, w, m)" using prod_cases3 by blast
  show ?thesis
    using assms ws_start_links [OF assms(1) s] by (simp add: ws_connect_def s split: option.splits)
      (elim conjE, hypsubst, simp)+
qed

lemma on_signal_links:
  assumes "links_ok n sigs" "on_signal e io acc s pay n = (sp, n')"
  shows "links_ok n' (map thread_sig (started sp) @ sigs)"
proof (cases "signal_from_str e pay")
  case (Some sig)
  then have o: "on_sig e io acc s sig n = (sp, n')" using assms(2) by (simp add: on_signal_def)
  show ?thesis
  proof (cases "\<exists>a b c. sig = WsReady a b c")
    case True
    then obtain a b c where sig: "sig = WsReady a b c" by blast
    obtain r m where w: "ws_connect e (io_connect io) (io_timeout io) (io_handshake io) b c n = (r, m)"
      by fastforce
    show ?thesis using ws_connect_links [OF assms(1) w] o by (cases r) (auto simp: sig w)
  next
    case False
    then show ?thesis using on_sig_neutral [OF o] links_ok_neutral [OF _ assms(1)] by simp
  qed
qed (use assms in \<open>auto simp: on_signal_def\<close>)

lemma links_ok_waiters:
  "links_ok (n\<lparr>punch_waiters := w\<rparr>) sigs = links_ok n sigs" "links_ok (n\<lparr>rtc_waiters := w\<rparr>) sigs = links_ok n sigs"
  by (simp_all add: links_ok_def)

lemma new_caller:
  "links_ok n sigs \<Longrightarrow> new_channel n = (c, n') \<Longrightarrow> neutral n' n'' \<Longrightarrow> links_ok n'' ((0, c, None) # sigs)"
  using links_ok_open links_ok_neutral by blast

lemma try_recv_neutral: "try_recv c n = (m, n') \<Longrightarrow> neutral n n'"
  by (auto simp: try_recv_def hm_keys_insert_old intro!: neutral_same split: option.splits list.splits)

lemma clip_pull_begin_links:
  assumes ok: "links_ok n sigs" and b: "clip_pull_begin e k n = (r, n')"
  shows "links_ok n' ((case r of Inl _ \<Rightarrow> [] | Inr c \<Rightarrow> [(0, c, None)]) @ sigs)"
proof -
  obtain c m where c: "new_channel n = (c, m)" by (cases "new_channel n")
  let ?m = "m\<lparr>clip_pending := hm_insert k c (clip_pending m)\<rparr>"
  let ?s = "send_payload e (i_name (identity ?m)) k (proto_for ?m k) (json_to_string e
    (obj [(''type'', JStr ''clipboard_request''), (''from'', JStr (i_node_id (identity ?m)))])) ?m"
  have s: "neutral m (snd ?s)"
    by (rule neutral_trans [OF neutral_update(10) traffic_neutral [OF send_payload_traffic]])
  have open_ok: "links_ok x ((0, c, None) # sigs)" if "neutral m x" for x
    by (rule new_caller [OF ok c that])
  have shut: "links_ok (chan_drop c (x\<lparr>clip_pending := y\<rparr>)) sigs" if "neutral m x" for x y
    using links_ok_idle_drop [of "x\<lparr>clip_pending := y\<rparr>" "[]" 0 c sigs]
      open_ok [OF neutral_trans [OF that neutral_update(10)]] by simp
  show ?thesis
    using b s ok open_ok shut by (auto simp: clip_pull_begin_def c Let_def split: if_splits prod.splits sum.splits)
qed

lemma clip_pull_end_links:
  assumes "links_ok n (pre @ (i, c, None) # post)" "clip_pull_end k c n = (r, n')"
  shows "links_ok n' (pre @ post)"
proof -
  obtain m n1 where t: "try_recv c n = (m, n1)" by fastforce
  let ?n2 = "n1\<lparr>clip_pending := hm_remove k (clip_pending n1)\<rparr>"
  define x where "x = (case m of Some (StrMsg t) \<Rightarrow> (effect (ClipSet t) ?n2)\<lparr>clip_last := t\<rparr> | _ \<Rightarrow> ?n2)"
  have "n' = chan_drop c x"
    using assms(2) by (auto simp: clip_pull_end_def t Let_def x_def split: option.splits chan_msg.splits)
  moreover have "neutral n1 x"
    by (auto simp: x_def intro!: neutral_after split: option.split chan_msg.split)
  ultimately show ?thesis
    using links_ok_idle_drop [OF links_ok_neutral [OF neutral_trans [OF try_recv_neutral [OF t]] assms(1)]]
    by blast
qed

lemma sys_step_owned: "sys_step e True s s' \<Longrightarrow> owned s \<Longrightarrow> owned s'"
proof (induction rule: sys_step.induct)
  case (call n ts x)
  have "links_ok (emit ev n) sigs = links_ok n sigs" for ev sigs by (simp add: links_ok_def emit_def)
  then show ?case using call links_ok_neutral [OF net_step_neutral]
    by (cases "reports x") (auto simp: owned_def elim!: reportsE)
next
  case (signal io acc s pay n sp n' ts)
  then show ?case using on_signal_links by (simp add: owned_def)
next
  case (ws_open n h w n' ts)
  then show ?case using ws_start_links by (simp add: owned_def)
next
  case (ws_turn w r ok n w' sent n' pre post)
  then show ?case using ws_turn_links by (simp add: owned_def)
next
  case (ws_exit w r ok n w' sent n1 gone n' pre post)
  then have "links_ok n1 (map thread_sig pre @ ws_sig w' # map thread_sig post)"
    using ws_turn_links by (simp add: owned_def)
  from ws_unregister_links [OF this ws_exit(3)] show ?case by (simp add: owned_def)
next
  case (ws_finish n pre w gone post)
  then show ?case using ws_finish_links by (simp add: owned_def)
next
  case (punch_open now a k n p n' ts)
  then show ?case using punch_start_links [of n "map thread_sig ts" e now a k p n']
    by (cases p) (simp_all add: owned_def)
next
  case (punch_turn p i n sent p' n' pre post)
  then show ?case using punch_turn_links by (simp add: owned_def)
next
  case (punch_end p i n sent p' n' pre post)
  then have "links_ok n' (map thread_sig pre @ punch_sig p' # map thread_sig post)"
    using punch_turn_links by (simp add: owned_def)
  from punch_close_links [OF this] show ?case by (simp add: owned_def)
next
  case (rtc_open k n r n' ts)
  then show ?case using rtc_start_links by (simp add: owned_def)
next
  case (rtc_turn r i n sent r' n' pre post)
  then show ?case using rtc_turn_links by (simp add: owned_def)
next
  case (rtc_end r i n sent r' n' pre post)
  then have "links_ok n' (map thread_sig pre @ rtc_sig r' # map thread_sig post)"
    using rtc_turn_links by (simp add: owned_def)
  from rtc_close_links [OF this] show ?case by (simp add: owned_def)
next
  case (pull_begin k n r n' ts)
  then show ?case using clip_pull_begin_links [of n "map thread_sig ts" e k r n']
    by (cases r) (simp_all add: owned_def)
next
  case (pull_end k c n r n' pre post)
  then show ?case using clip_pull_end_links by (simp add: owned_def)
next
  case (offer_punch n c n' ts sid)
  then show ?case using new_caller [OF _ _ neutral_refl] by (simp add: owned_def links_ok_waiters)
next
  case (offer_rtc n c n' ts sid)
  then show ?case using new_caller [OF _ _ neutral_refl] by (simp add: owned_def links_ok_waiters)
next
  case (await c n m n' pre post)
  then show ?case using links_ok_neutral [OF try_recv_neutral] by (simp add: owned_def)
next
  case (close_rx n pre c post)
  then show ?case using links_ok_idle_drop by (simp add: owned_def)
qed

lemma engine_start_ok: "engine_start e tcp udp ws disco = Inr n \<Longrightarrow> dots_ok n \<and> owned (n, [])"
  by (auto simp: engine_start_def fresh_net_def dots_ok_def live_view_def owned_def links_ok_def Let_def
      split: sum.splits)

section \<open>Channels and numbers\<close>

text \<open>A thread keeps its channel and its number.\<close>

lemma ws_read_chan: "ws_on_read e w r n = (b, w', n') \<Longrightarrow> wc_chan w' = wc_chan w \<and> wc_id w' = wc_id w"
  by (cases r) (auto simp: ws_hello_def Let_def split: option.splits ws_frame.splits if_splits)

lemma ws_turn_chan: "ws_turn e w r ok n = (b, w', sent, n') \<Longrightarrow> wc_chan w' = wc_chan w \<and> wc_id w' = wc_id w"
  by (auto simp: ws_turn_def Let_def dest!: ws_read_chan split: prod.splits bool.splits)

lemma punch_turn_chan: "punch_turn e p i n = Some (b, sent, p', n') \<Longrightarrow> pc_chan p' = pc_chan p \<and> pc_id p' = pc_id p"
  by (drule punch_turn_guarded) simp

lemma rtc_turn_chan: "rtc_turn e r i n = (b, sent, r', n') \<Longrightarrow> rc_chan r' = rc_chan r \<and> rc_id r' = rc_id r"
proof -
  have out: "rc_chan r' = rc_chan r \<and> rc_id r' = rc_id r" if "rtc_on_output e r x n = (r', n')" for r x n r' n'
    using that by (cases x) (auto simp: Let_def split: option.splits ws_frame.splits if_splits)
  have pump: "rtc_pump e r xs n = (r', n') \<Longrightarrow> rc_chan r' = rc_chan r \<and> rc_id r' = rc_id r" for xs r n r' n'
    by (induction xs arbitrary: r n) (auto simp: Let_def dest: out split: prod.splits)
  show "rtc_turn e r i n = (b, sent, r', n') \<Longrightarrow> rc_chan r' = rc_chan r \<and> rc_id r' = rc_id r"
    by (auto simp: rtc_turn_def Let_def split: if_splits prod.splits dest: pump)
qed

text \<open>A signal opens at most one link itself, and then does nothing else.\<close>

lemma on_signal_starts:
  assumes "on_signal e io acc s pay n = (sp, n')"
  shows "started sp = [] \<or> (\<exists>h w. started sp = [WsT w] \<and> ws_start e n = (h, w, n'))"
proof (cases "started sp")
  case (Cons t more)
  then obtain sig where sig: "on_sig e io acc s sig n = (sp, n')"
    using assms by (auto simp: on_signal_def split: option.splits)
  then obtain a ip port where w: "sig = WsReady a ip port"
    using on_sig_neutral Cons by (metis list.distinct(1))
  obtain h x where "ws_connect e (io_connect io) (io_timeout io) (io_handshake io) ip port n = (Inr (h, x), n')"
    "sp = [WsThread h x]"
    using sig Cons by (auto simp: w split: prod.splits sum.splits)
  then show ?thesis by (auto simp: ws_connect_def split: option.splits prod.splits)
qed simp

end
