(* ===== verification/Host.thy ===== *)
theory Host
  imports Engine Wire_Mux
begin

text \<open>
  What surrounds the engine: the crate's error type (\<open>error.rs\<close>), the default methods of the
  platform trait (\<open>platform.rs\<close>), the discovery socket and the threads \<open>Engine::start\<close> spawns
  (\<open>engine.rs\<close>), and the two streaming services (\<open>services/\<close>), whose handlers are empty.
\<close>

section \<open>Errors\<close>

datatype core_error = CoreError string

fun core_error_fmt :: "core_error \<Rightarrow> string" where
  "core_error_fmt (CoreError s) = s"

definition core_error_from_string :: "string \<Rightarrow> core_error" where
  "core_error_from_string s = CoreError s"

definition core_error_from_str :: "string \<Rightarrow> core_error" where
  "core_error_from_str s = CoreError s"

fun string_from_core_error :: "core_error \<Rightarrow> string" where
  "string_from_core_error (CoreError s) = s"

lemma core_error_text:
  "core_error_fmt (core_error_from_string s) = s" "string_from_core_error (core_error_from_str s) = s"
  "core_error_from_string (string_from_core_error err) = err"
  by (cases err, simp_all add: core_error_from_string_def core_error_from_str_def)+

section \<open>The default platform\<close>

text \<open>
  \<open>detect_local_ip\<close>: whether the bind and the connect succeed, and the address \<open>local_addr\<close>
  returns. The socket is an IPv4 one, so its address is.
\<close>

definition detect_local_ip :: "bool \<Rightarrow> bool \<Rightarrow> ipv4 option \<Rightarrow> string" where
  "detect_local_ip bind connect local_addr =
     (if bind then
        (if connect then (case local_addr of Some ip \<Rightarrow> show_ipv4 ip | None \<Rightarrow> ''0.0.0.0'') else ''0.0.0.0'')
      else ''0.0.0.0'')"

text \<open>A host that implements only the required methods; the other answers are the trait's.\<close>

definition default_platform :: "(nat \<Rightarrow> bool \<times> bool \<times> ipv4 option) \<Rightarrow> env \<Rightarrow> env" where
  "default_platform sock e = e\<lparr>
     platform_kind := ''unknown'',
     local_ip := (\<lambda>t. case sock t of (bind, connect, addr) \<Rightarrow> detect_local_ip bind connect addr),
     kv_get := (\<lambda>_. None), fcm_token := (\<lambda>_. None), has_clipboard := False, has_notifier := False\<rparr>"

lemma detect_local_ip_parses: "\<exists>ip. parse_ipv4 (detect_local_ip bind connect addr) = Some ip"
proof -
  have "parse_ipv4 (show_ipv4 (Ipv4 0 0 0 0)) = Some (Ipv4 0 0 0 0)" by (rule parse_show_ipv4)
  then have "parse_ipv4 ''0.0.0.0'' = Some (Ipv4 0 0 0 0)"
    by (simp add: show_nat.simps [of 0] digit_def char_of_def bit_iff_odd)
  then show ?thesis by (auto simp: detect_local_ip_def parse_show_ipv4 split: option.split)
qed

section \<open>The threads of the engine\<close>

datatype engine_loop =
    DiscoveryLoop | TcpLoop | UdpLoop | WsLoop | ClipboardLoop | NetworkLoop | HeartbeatLoop

text \<open>
  The discovery socket: the outcomes of the multicast bind, of cloning its socket and of the
  plain bind that replaces it. The flag tells whether the discovery receiver runs.
\<close>

definition disco_socket :: "bool \<Rightarrow> string option \<Rightarrow> string option \<Rightarrow> string + bool" where
  "disco_socket multicast clone plain =
     (if multicast then (case clone of Some err \<Rightarrow> Inl err | None \<Rightarrow> Inr True)
      else (case plain of Some err \<Rightarrow> Inl err | None \<Rightarrow> Inr False))"

definition spawned_loops :: "env \<Rightarrow> bool \<Rightarrow> engine_loop list" where
  "spawned_loops e receiving =
     (if receiving then [DiscoveryLoop] else []) @ [TcpLoop, UdpLoop, WsLoop] @
     (if has_clipboard e then [ClipboardLoop] else []) @ [NetworkLoop, HeartbeatLoop]"

definition engine_run :: "env \<Rightarrow> string + u16 \<Rightarrow> string + u16 \<Rightarrow> string + u16 \<Rightarrow> string + bool \<Rightarrow>
    string + (net \<times> engine_loop list)" where
  "engine_run e tcp udp ws disco =
     (case disco of
        Inl err \<Rightarrow> map_sum id (\<lambda>n. (n, [])) (engine_start e tcp udp ws (Inl err))
      | Inr receiving \<Rightarrow> map_sum id (\<lambda>n. (n, spawned_loops e receiving)) (engine_start e tcp udp ws (Inr ())))"

text \<open>Not starting the clipboard watcher changes nothing: without a clipboard a turn is idle.\<close>

lemma clip_watch_idle: "\<not> has_clipboard e \<Longrightarrow> clip_watch e n = n"
  by (simp add: clip_watch_def read_clipboard_def)

text \<open>A failed detection never replaces the advertised address.\<close>

lemma ip_watch_default:
  assumes "parse_ipv4 (i_ip (identity n)) \<noteq> None"
  shows "parse_ipv4 (i_ip (identity (ip_watch (default_platform sock e) n))) \<noteq> None"
    and "\<not> fst (sock (tick n)) \<Longrightarrow> identity (ip_watch (default_platform sock e) n) = identity n"
  using assms detect_local_ip_parses
  by (auto simp: ip_watch_def default_platform_def advance_def Let_def detect_local_ip_def split: prod.splits)

section \<open>Streaming services\<close>

datatype service = AvService | RemoteControlService

fun service_ident :: "service \<Rightarrow> service_id" where
  "service_ident AvService = Av"
| "service_ident RemoteControlService = RemoteControl"

text \<open>Both \<open>on_frame\<close> bodies are empty: a frame is dropped.\<close>

definition service_on_frame :: "service \<Rightarrow> string \<Rightarrow> u16 \<Rightarrow> bytes \<Rightarrow> net \<Rightarrow> net" where
  "service_on_frame s node_id chan payload n = n"

lemma service_bytes: "service_byte (service_ident s) = (case s of AvService \<Rightarrow> 4 | RemoteControlService \<Rightarrow> 5)"
  by (cases s) simp_all

end
