(* ===== verification/Invariance.thy ===== *)
theory Invariance
  imports System
begin

text \<open>
  What every step of the program does to the shared state, reduced to a few primitive changes.
  The locale \<open>step_law\<close> takes a reflexive and transitive relation of states that contains each
  primitive change, and proves that it contains every engine operation, every turn of a link
  thread and every step of the system. It is interpreted on the growth of the effects
  (\<open>Simulation\<close>), on the invariant of the shared tables (\<open>WellFormed\<close>), on confidentiality
  (\<open>Secrecy\<close>) and authenticity (\<open>Authentic\<close>), on the connection counters (\<open>Conn_Ids\<close>) and on the
  order of the queues (\<open>Queues\<close>).
\<close>

section \<open>The primitive changes\<close>

text \<open>A chat message shown as readable.\<close>

fun ok_chat :: "effect \<Rightarrow> bool" where
  "ok_chat (Emit (MessageReceived m)) = m_ok m"
| "ok_chat _ = False"

locale step_law =
  fixes R :: "net \<Rightarrow> net \<Rightarrow> bool" and e :: env
  assumes refl: "R n n"
    and trans: "R n n' \<Longrightarrow> R n' n'' \<Longrightarrow> R n n''"
    and quiet: "\<lbrakk>key n' = key n; peers n' = peers n; ws_conns n' = ws_conns n; p2p_conns n' = p2p_conns n;
        punch_waiters n' = punch_waiters n; rtc_waiters n' = rtc_waiters n; clip_pending n' = clip_pending n;
        control n' = control n; subs n' = subs n; chans n' = chans n; next_chan n' = next_chan n;
        ws_seq n' = ws_seq n; punch_seq n' = punch_seq n; rtc_seq n' = rtc_seq n; out n' = out n\<rbrakk> \<Longrightarrow> R n n'"
    and no_key: "R n (n\<lparr>key := None\<rparr>)"
    and new_key: "derive_key e phrase name = Some x \<Longrightarrow> R n (n\<lparr>key := Some x\<rparr>)"
    and local_effect: "\<lbrakk>\<not> is_io eff; \<not> dot_event eff; \<not> ok_chat eff\<rbrakk> \<Longrightarrow> R n (effect eff n)"
    and chat: "\<lbrakk>opened e (key n) env = Some pt; plaintext_from_slice e pt = Some said\<rbrakk> \<Longrightarrow>
        R n (emit (MessageReceived \<lparr>m_from = pt_from said, m_ip = ip, m_protocol = carrier, m_text = pt_text said,
          m_ts = ts, m_ok = True\<rparr>) n)"
    and web: "R n (snd (http_call e q n))"
    and payload: "R n (snd (send_payload e sender node proto txt n))"
    and beacon: "R n (send_beacon e ident reply targets n)"
    and peer_in: "R n (n\<lparr>peers := hm_insert (p_node_id p) p (peers n)\<rparr>)"
    and peer_out: "R n (n\<lparr>peers := filter P (peers n)\<rparr>)"
    and conns: "R n (n\<lparr>ws_conns := hm_insert kc v (ws_conns n)\<rparr>)" "R n (n\<lparr>ws_conns := hm_remove kc (ws_conns n)\<rparr>)"
    and live: "R n (mark_live e kl tk ad n)" "R n (touch_live e kl n)" "R n (drop_live kl n)"
    and subscription: "R n (n\<lparr>subs := hm_insert ks apps (subs n)\<rparr>)"
    and unwait: "R n (n\<lparr>clip_pending := hm_remove kw (clip_pending n)\<rparr>)"
      "R n (n\<lparr>punch_waiters := hm_remove kw (punch_waiters n)\<rparr>)"
      "R n (n\<lparr>rtc_waiters := hm_remove kw (rtc_waiters n)\<rparr>)"
    and channel: "new_channel n = (ch, n') \<Longrightarrow> R n n'"
    and number: "new_channel n = (ch, n') \<Longrightarrow> R n (n'\<lparr>ws_seq := ws_seq n' + 1\<rparr>)"
      "new_channel n = (ch, n') \<Longrightarrow> R n (n'\<lparr>punch_seq := punch_seq n' + 1\<rparr>)"
      "new_channel n = (ch, n') \<Longrightarrow> R n (n'\<lparr>rtc_seq := rtc_seq n' + 1\<rparr>)"
    and wait: "new_channel n = (ch, n') \<Longrightarrow> R n (n'\<lparr>clip_pending := hm_insert kn ch (clip_pending n')\<rparr>)"
      "new_channel n = (ch, n') \<Longrightarrow> R n (n'\<lparr>punch_waiters := hm_insert kn ch (punch_waiters n')\<rparr>)"
      "new_channel n = (ch, n') \<Longrightarrow> R n (n'\<lparr>rtc_waiters := hm_insert kn ch (rtc_waiters n')\<rparr>)"
    and answer: "hm_get (clip_pending n) ka = Some tx \<Longrightarrow>
        R n (snd (chan_send tx msg (n\<lparr>clip_pending := hm_remove ka (clip_pending n)\<rparr>)))"
      "hm_get (punch_waiters n) ka = Some tx \<Longrightarrow>
        R n (snd (chan_send tx msg (n\<lparr>punch_waiters := hm_remove ka (punch_waiters n)\<rparr>)))"
      "hm_get (rtc_waiters n) ka = Some tx \<Longrightarrow>
        R n (snd (chan_send tx msg (n\<lparr>rtc_waiters := hm_remove ka (rtc_waiters n)\<rparr>)))"
    and drain: "hm_get (chans n) cd = Some qu \<Longrightarrow> suffix qu' qu \<Longrightarrow>
        R n (n\<lparr>chans := hm_insert cd qu' (chans n)\<rparr>)"
    and hang_up: "R n (chan_drop cx n)"
begin

section \<open>The primitive operations\<close>

lemma setting:
  "R n (n\<lparr>identity := a\<rparr>)" "R n (n\<lparr>clip_active := b\<rparr>)" "R n (n\<lparr>clip_last := c\<rparr>)" "R n (n\<lparr>installed_apps := d\<rparr>)"
  "R n (n\<lparr>directed_transport := f\<rparr>)" "R n (n\<lparr>server_url := g\<rparr>)" "R n (n\<lparr>token := h\<rparr>)"
  "R n (n\<lparr>username := i\<rparr>)" "R n (advance n)"
  by (rule quiet; simp add: advance_def)+

lemma event: "\<not> dot_event (Emit ev) \<Longrightarrow> \<not> ok_chat (Emit ev) \<Longrightarrow> R n (emit ev n)"
  using local_effect [of "Emit ev" n] by (simp add: emit_def effect_def)

text \<open>The same after what came before.\<close>

lemma after:
  "R n m \<Longrightarrow> R n (m\<lparr>identity := a\<rparr>)" "R n m \<Longrightarrow> R n (m\<lparr>clip_active := b\<rparr>)" "R n m \<Longrightarrow> R n (m\<lparr>clip_last := c\<rparr>)"
  "R n m \<Longrightarrow> R n (m\<lparr>installed_apps := d\<rparr>)" "R n m \<Longrightarrow> R n (m\<lparr>directed_transport := f\<rparr>)"
  "R n m \<Longrightarrow> R n (m\<lparr>server_url := g\<rparr>)" "R n m \<Longrightarrow> R n (m\<lparr>token := h\<rparr>)" "R n m \<Longrightarrow> R n (m\<lparr>username := i\<rparr>)"
  "R n m \<Longrightarrow> R n (advance m)" "R n m \<Longrightarrow> \<not> dot_event (Emit ev) \<Longrightarrow> \<not> ok_chat (Emit ev) \<Longrightarrow> R n (emit ev m)"
  "R n m \<Longrightarrow> \<not> is_io eff \<Longrightarrow> \<not> dot_event eff \<Longrightarrow> \<not> ok_chat eff \<Longrightarrow> R n (effect eff m)" "R n m \<Longrightarrow> R n (m\<lparr>key := None\<rparr>)"
  "R n m \<Longrightarrow> R n (m\<lparr>ws_conns := hm_insert kc v (ws_conns m)\<rparr>)"
  "R n m \<Longrightarrow> R n (m\<lparr>ws_conns := hm_remove kc (ws_conns m)\<rparr>)"
  "R n m \<Longrightarrow> R n (touch_live e kl m)" "R n m \<Longrightarrow> R n (drop_live kl m)"
  "R n m \<Longrightarrow> R n (m\<lparr>subs := hm_insert ks apps (subs m)\<rparr>)"
  "R n m \<Longrightarrow> R n (m\<lparr>clip_pending := hm_remove kw (clip_pending m)\<rparr>)"
  "R n m \<Longrightarrow> R n (m\<lparr>punch_waiters := hm_remove kw (punch_waiters m)\<rparr>)"
  "R n m \<Longrightarrow> R n (m\<lparr>rtc_waiters := hm_remove kw (rtc_waiters m)\<rparr>)"
  "R n m \<Longrightarrow> R n (m\<lparr>peers := hm_insert (p_node_id p) p (peers m)\<rparr>)"
  "R n m \<Longrightarrow> R n (m\<lparr>peers := filter P (peers m)\<rparr>)"
  "R n m \<Longrightarrow> R n (chan_drop cx m)" "R n m \<Longrightarrow> R n (snd (send_payload e sender node proto txt m))"
  "R n m \<Longrightarrow> R n (send_beacon e ident reply targets m)" "R n m \<Longrightarrow> R n (snd (http_call e q m))"
  by (erule trans, rule setting event local_effect no_key conns live subscription unwait peer_in peer_out
      hang_up payload beacon web, (assumption+)?)+

lemma pair: "(\<And>x n'. r = (x, n') \<Longrightarrow> R n n') \<Longrightarrow> R n (snd r)"
  by (cases r) simp

lemma sent: "send_payload e s k p t n = (r, n') \<Longrightarrow> R n n'"
  using payload by (metis snd_conv)

lemma http: "http_call e q n = (r, n') \<Longrightarrow> R n n'"
  using web by (metis snd_conv)

lemma folds: "(\<And>n x. R n (f n x)) \<Longrightarrow> R n (foldl f n xs)"
  by (induction xs arbitrary: n) (auto intro: refl trans)

lemma marks: "R n m \<Longrightarrow> R n (mark_live e k t a m)" "R n m \<Longrightarrow> R n (touch_live e k m)" "R n m \<Longrightarrow> R n (drop_live k m)"
  by (erule trans, rule live)+

lemma control_to: "R n m \<Longrightarrow> R n (send_control_to e k t m)"
  by (simp add: send_control_to_def Let_def after)

lemma broadcast: "R n m \<Longrightarrow> R n (broadcast_control e t m)"
  unfolding broadcast_control_def by (erule trans, rule folds, rule control_to, rule refl)

lemma clipboard: "read_clipboard e n = (r, n') \<Longrightarrow> R n n'"
  by (auto simp: read_clipboard_def intro: refl setting split: if_splits)

lemma received: "try_recv c n = (m, n') \<Longrightarrow> R n n'"
  by (auto simp: try_recv_def suffix_ConsI intro: refl drain split: option.splits list.splits)

section \<open>Incoming messages\<close>

lemma handled: "R n (handler_handle h e msg n)"
proof (cases h)
  case ClipboardHandler
  then show ?thesis
    by (auto simp: clipboard_handle_def Let_def refl intro!: after control_to answer dest: clipboard
        split: option.split prod.split)
next
  case NotificationHandler
  then show ?thesis by (auto simp: notification_handle_def Let_def intro!: after refl)
next
  case CallNotificationHandler
  then show ?thesis by (simp add: call_notification_handle_def event)
next
  case CallHistoryHandler
  then show ?thesis by (simp add: call_history_handle_def event)
next
  case NotifAppsHandler
  then show ?thesis by (auto simp: notif_apps_handle_def Let_def intro!: after control_to refl)
next
  case P2pPingHandler
  then show ?thesis by (auto simp: p2p_ping_handle_def Let_def intro!: marks control_to refl)
qed

lemma dispatched: "dispatch e s ip p t n = (b, n') \<Longrightarrow> R n n'"
  by (auto simp: dispatch_def intro: handled refl split: option.splits)

lemma incoming: "R n m \<Longrightarrow> R n (handle_incoming e env ip p m)"
proof (erule trans)
  have same: "n' = m" if "dispatch e s i q t m = (False, n')" for s i q t n' and m :: net
    using that by (auto simp: dispatch_def split: option.splits)
  show "R m (handle_incoming e env ip p m)" for m
  proof (cases "opened e (key m) env")
    case None
    then show ?thesis
      by (auto simp: handle_incoming_def envelope_to_message_def read_clock_def Let_def intro!: after refl)
  next
    case (Some pt)
    have "opened e (key (advance m)) env = Some pt" using Some by (simp add: advance_def)
    from trans [OF setting(9) chat [OF this]] show ?thesis
      using Some by (auto simp: handle_incoming_def read_clock_def Let_def refl dest: dispatched dest!: same
          split: option.splits prod.splits bool.splits)
  qed
qed

lemma recv: "R n (recv_step e n x)"
  by (cases x) (auto simp: tcp_recv_def udp_recv_def Let_def intro!: incoming refl split: option.split)

lemma discovered: "R n (discovery_recv e r n)"
proof -
  have "R n (n\<lparr>peers := hm_insert (b_node_id b) (lan_peer b src) (peers n)\<rparr>)" for b src
    using peer_in [of n "lan_peer b src"] by (simp add: lan_peer_def)
  then show ?thesis
    by (auto simp: discovery_recv_def emit_peers_def Let_def intro!: after refl split: option.split)
qed

section \<open>Calls and loops\<close>

lemma registry:
  "auth_call e url path u p n = (r1, n') \<Longrightarrow> R n n'" "verify_password_call e url u p n = (r2, n') \<Longrightarrow> R n n'"
  "registry_register e url tok i f pl six n = (r3, n') \<Longrightarrow> R n n'"
  "registry_send_signal e url tok u v k j n = (r3, n') \<Longrightarrow> R n n'"
  "send_selfping e url tok u v n = (r3, n') \<Longrightarrow> R n n'"
  "update_device_state e url tok u wo ib ri rp n = (r3, n') \<Longrightarrow> R n n'"
  "probe_inbound e url tok u cs n = (r4, n') \<Longrightarrow> R n n'" "health_ok e url n = (b, n') \<Longrightarrow> R n n'"
  "registry_fetch e url tok u n = (r5, n') \<Longrightarrow> R n n'"
proof -
  have c: "R n n'" if "checked_call e q n = (r, n')" for q r n'
    using that by (auto simp: checked_call_def dest: http split: prod.splits http_reply.splits)
  have d: "R n n'" if "drop_reply (checked_call e q n) = (r, n')" for q r n'
    using that by (auto simp: drop_reply_def dest: c split: prod.splits sum.splits)
  have p: "R n n'" if "parse_reply f (checked_call e q n) = (r, n')" for f q r n'
    using that by (auto simp: parse_reply_def dest: c split: prod.splits sum.splits)
  show "auth_call e url path u p n = (r1, n') \<Longrightarrow> R n n'" by (auto simp: auth_call_def dest: p)
  show "verify_password_call e url u p n = (r2, n') \<Longrightarrow> R n n'"
    by (auto simp: verify_password_call_def dest: http split: prod.splits http_reply.splits if_splits)
  show "registry_register e url tok i f pl six n = (r3, n') \<Longrightarrow> R n n'"
    by (auto simp: registry_register_def dest: d)
  show "registry_send_signal e url tok u v k j n = (r3, n') \<Longrightarrow> R n n'"
    by (auto simp: registry_send_signal_def dest: d)
  show "send_selfping e url tok u v n = (r3, n') \<Longrightarrow> R n n'" by (auto simp: send_selfping_def dest: d)
  show "update_device_state e url tok u wo ib ri rp n = (r3, n') \<Longrightarrow> R n n'"
    by (auto simp: update_device_state_def dest: d)
  show "probe_inbound e url tok u cs n = (r4, n') \<Longrightarrow> R n n'" by (auto simp: probe_inbound_def dest: p)
  show "health_ok e url n = (b, n') \<Longrightarrow> R n n'"
    by (auto simp: health_ok_def dest: http split: prod.splits http_reply.splits)
  show "registry_fetch e url tok u n = (r5, n') \<Longrightarrow> R n n'" by (auto simp: registry_fetch_def dest: p)
qed

lemma logged_in: "do_auth e path url u p n = (r, n') \<Longrightarrow> R n n'"
  by (auto simp: do_auth_def Let_def refl split: if_splits prod.splits sum.splits dest!: registry(1) intro!: after)

lemma keyed:
  "dev_login e u p n = (r, n') \<Longrightarrow> R n n'" "set_encryption_key e p n = (r, n') \<Longrightarrow> R n n'"
  "update_encryption_key e p w n = (r, n') \<Longrightarrow> R n n'" "R n (logout n)"
proof -
  have two: "R n (n\<lparr>username := v, key := Some k\<rparr>)" if "derive_key e p u = Some k" for v k p u
    using trans [OF setting(8) [of n v] new_key [OF that]] by simp
  show "dev_login e u p n = (r, n') \<Longrightarrow> R n n'"
    by (auto simp: dev_login_def Let_def refl two split: if_splits option.splits)
  show "set_encryption_key e p n = (r, n') \<Longrightarrow> R n n'"
    by (auto simp: set_encryption_key_def refl new_key split: if_splits option.splits)
  show "update_encryption_key e p w n = (r, n') \<Longrightarrow> R n n'"
    by (auto simp: update_encryption_key_def refl split: if_splits option.splits prod.splits sum.splits bool.splits
        dest!: registry(2) intro: trans new_key)
  show "R n (logout n)" unfolding logout_def by (rule after(12) [OF setting(7)])
qed

lemma registry_peers: "R n (apply_registry_peers ds n)"
proof -
  have ins: "R m (m\<lparr>peers := foldl (\<lambda>m d. hm_insert (d_node_id d) (registry_peer d) m) (peers m) ds\<rparr>)" for m
  proof (induction ds arbitrary: m)
    case (Cons d ds)
    let ?m = "m\<lparr>peers := hm_insert (d_node_id d) (registry_peer d) (peers m)\<rparr>"
    have "R m ?m" using peer_in [of m "registry_peer d"] by (simp add: registry_peer_def)
    from trans [OF this Cons [of ?m]] show ?case by simp
  qed (simp add: refl)
  have "R n (n\<lparr>peers := foldl (\<lambda>m d. hm_insert (d_node_id d) (registry_peer d) m)
      (filter (\<lambda>(_, p). p_source p \<noteq> Registry) (peers n)) ds\<rparr>)"
    using trans [OF peer_out [of n "\<lambda>(_, p). p_source p \<noteq> Registry"] ins] by simp
  then show ?thesis by (simp add: apply_registry_peers_def emit_peers_def Let_def after)
qed

lemma refreshed: "refresh_from_server e n = (r, n') \<Longrightarrow> R n n'"
proof -
  have "R n n'" if "registry_register e url tok i f pl six (advance n) = (r, n1)"
    "registry_fetch e url tok u n1 = (r', n')" for url tok i f pl six r n1 u r' n'
    using trans [OF setting(9) trans [OF registry(3) [OF that(1)] registry(9) [OF that(2)]]] .
  moreover have "R n n'" if "registry_register e url tok i f pl six (advance n) = (r, n')" for url tok i f pl six r n'
    using trans [OF setting(9) registry(3) [OF that]] .
  ultimately show "refresh_from_server e n = (r, n') \<Longrightarrow> R n n'"
    by (auto simp: refresh_from_server_def Let_def refl split: option.splits prod.splits sum.splits
        intro: trans [OF _ registry_peers])
qed

lemma moved: "R n (network_changed e ip n)"
proof -
  have r: "R n (snd (refresh_from_server e m))" if "R n m" for m
    using trans [OF that] refreshed by (metis prod.collapse)
  show ?thesis by (auto simp: network_changed_def Let_def intro!: r after refl split: option.split)
qed

lemma reachability:
  "firewall_check e n = (r1, n') \<Longrightarrow> R n n'" "R n (report_firewall e n)" "fcm_selftest e n = (r3, n') \<Longrightarrow> R n n'"
proof -
  have state: "R n (snd (update_device_state e url tok i a b c d m))" if "R n m" for url tok i a b c d m
    using trans [OF that] registry(6) by (metis prod.collapse)
  have probe: "R n n'" if "health_ok e url n = (b, n1)" "probe_inbound e url tok i cs n1 = (p, n')"
    for url b n1 tok i cs p n' using registry(8) [OF that(1)] registry(7) [OF that(2)] by (rule trans)
  show "firewall_check e n = (r1, n') \<Longrightarrow> R n n'"
    using registry(8) probe state refl
    by (auto simp: firewall_check_def Let_def split: option.splits prod.splits sum.splits bool.splits)
      (metis snd_conv)+
  show "R n (report_firewall e n)"
    using registry(8) probe state refl
    by (auto simp: report_firewall_def Let_def split: option.split prod.split sum.split bool.split)
  show "fcm_selftest e n = (r3, n') \<Longrightarrow> R n n'"
    using registry(5) trans [OF setting(9)] refl
    by (auto simp: fcm_selftest_def Let_def split: option.splits prod.splits sum.splits)
qed

lemma signalled_out: "send_signal e k sig n = (r, n') \<Longrightarrow> R n n'" "update_ws_open e b n = (r, n') \<Longrightarrow> R n n'"
  by (auto simp: send_signal_def update_ws_open_def refl dest: registry(4,6) split: option.splits sum.splits)

lemma turns: "R n (heartbeat e n)" "R n (clip_watch e n)" "R n (ip_watch e n)" "R n (enable_clipboard_sync e n)"
proof -
  have "R n (beat_one e p t n l)" for p t n l
    by (auto simp: beat_one_def refl intro: marks control_to split: prod.split)
  then show "R n (heartbeat e n)"
    unfolding heartbeat_def read_clock_def Let_def prod.case by (rule trans [OF setting(9) folds])
  show "R n (clip_watch e n)"
    by (auto simp: clip_watch_def refl intro!: broadcast after dest: clipboard split: prod.split option.split)
  show "R n (ip_watch e n)" by (auto simp: ip_watch_def Let_def intro!: after refl)
  show "R n (enable_clipboard_sync e n)"
    by (auto simp: enable_clipboard_sync_def Let_def intro!: after dest: clipboard split: prod.split option.split)
qed

lemma shared:
  "R n (snd (send_control e k t n))" "R n (snd (send e k t n))" "R n (share_notification e t b a n)"
  "R n (share_call_notification e t a b n)" "R n (share_call_history e t n)"
  "R n (share_app_notification e b t c d n)" "R n (snd (request_apps e k n))" "R n (snd (subscribe_apps e k t n))"
  "R n (snd (ladder_ping e k n))"
proof -
  show c: "R n (snd (send_control e k t n))" for n k t by (simp add: send_control_def payload)
  show "R n (snd (send e k t n))"
    by (rule pair) (auto simp: send_def Let_def dest: sent split: prod.splits sum.splits)
  show "R n (share_notification e t b a n)" "R n (share_call_notification e t a b n)" "R n (share_call_history e t n)"
    by (simp_all add: share_notification_def share_call_notification_def share_call_history_def broadcast refl)
  show "R n (share_app_notification e b t c d n)"
    unfolding share_app_notification_def Let_def by (rule folds) (rule c)
  show "R n (snd (request_apps e k n))" "R n (snd (subscribe_apps e k t n))"
    by (simp_all add: request_apps_def subscribe_apps_def c)
  show "R n (snd (ladder_ping e k n))" by (simp add: ladder_ping_def payload)
qed

lemma scanned: "R n (scan_lan e n)"
  unfolding scan_lan_def Let_def by (rule trans [OF setting(9) folds]) (rule beacon)

lemma edited: "R n (snd (add_manual_peer nm ip t u w n))" "R n (remove_peer k n)"
proof -
  show "R n (snd (add_manual_peer nm ip t u w n))"
    by (auto simp: add_manual_peer_def emit_peers_def Let_def intro!: after refl split: option.split)
  have "hm_remove k m = filter (\<lambda>x. fst x \<noteq> k) m" for m :: "(string, peer) hmap"
    by (induction m) (auto simp: hm_remove_def)
  then show "R n (remove_peer k n)" by (auto simp: remove_peer_def emit_peers_def intro!: after refl)
qed

lemma operation: "R n (net_step e x n)"
  by (cases x) (simp_all add: recv discovered scanned turns auth_login_def auth_register_def pair [OF logged_in]
      pair [OF keyed(1)] pair [OF keyed(2)] pair [OF keyed(3)] keyed(4) pair [OF refreshed] moved edited
      pair [OF reachability(1)] reachability(2) pair [OF reachability(3)] pair [OF signalled_out(1)]
      pair [OF signalled_out(2)] shared setting event unwait set_directed_transport_def
      disable_clipboard_sync_def set_installed_apps_def)

section \<open>Link threads\<close>

lemma ws_read: "ws_on_read e w r n = (b, v, m) \<Longrightarrow> R n m"
  by (cases r) (auto simp: ws_hello_def Let_def refl intro!: incoming marks after
      split: option.splits ws_frame.splits if_splits)

lemma ws_thread:
  "ws_start e n = (h, w, n') \<Longrightarrow> R n n'" "ws_turn e w r ok n = (b, w', snt, n') \<Longrightarrow> R n n'"
  "ws_unregister w n = (g, n') \<Longrightarrow> R n n'" "R n (ws_finish w g n)"
proof -
  show "ws_start e n = (h, w, n') \<Longrightarrow> R n n'"
    by (auto simp: ws_start_def Let_def dest: number(1) split: prod.splits)
  have rest: "suffix rest q" if "drain ok k q = (snt, d, rest)" for k q snt d rest
    using that by (induction ok k q arbitrary: snt d rest rule: drain.induct)
      (auto intro: suffix_ConsI split: if_splits prod.splits)
  have flush: "R m m'" if "ws_flush ok c m = (s, d, m')" for c m s d m'
    using that by (auto simp: ws_flush_def Let_def refl split: option.splits prod.splits
        intro: drain dest: rest)
  show "ws_turn e w r ok n = (b, w', snt, n') \<Longrightarrow> R n n'"
    by (auto simp: ws_turn_def Let_def dest!: flush ws_read split: prod.splits bool.splits intro: trans)
  show "ws_unregister w n = (g, n') \<Longrightarrow> R n n'"
    by (auto simp: ws_unregister_def refl intro!: after split: option.splits if_splits)
  show "R n (ws_finish w g n)"
    by (auto simp: ws_finish_def intro!: after marks refl split: option.split)
qed

lemma punch_thread:
  "punch_start e now a k n = (p, n') \<Longrightarrow> R n n'"
  "punch_turn e q i n = Some (b, snt, p', n') \<Longrightarrow> R n n'" "R n (punch_close q n)"
proof -
  have reg: "R n (m\<lparr>punch_seq := punch_seq m + 1, ws_conns := hm_insert k l (ws_conns m)\<rparr>)"
    if "new_channel n = (c, m)" for c m k l
    using after(13) [OF number(2) [OF that], of k l] by simp
  show "punch_start e now a k n = (p, n') \<Longrightarrow> R n n'"
    by (auto simp: punch_start_def Let_def intro!: after(23) marks reg number split: prod.splits if_splits)
  have rest: "suffix rest q" if "punch_drain io k mid q = (snt, mid', d, rest)" for io k mid q snt mid' d rest
    using that by (induction io k mid q arbitrary: snt mid' d rest rule: punch_drain.induct)
      (auto simp: Let_def intro: suffix_ConsI split: if_splits prod.splits sum.splits)
  have flush: "R m m'" if "punch_flush io p m = (s, d, p', m')" for io p m s d p' m'
    using that by (auto simp: punch_flush_def Let_def refl split: option.splits prod.splits
        intro: drain dest: rest)
  have dgram: "R m m'" if "punch_on_dgram e p x m = Some (s, p', m')" for p x m s p' m'
    using that by (auto simp: punch_on_dgram_def Let_def refl intro!: incoming marks
        split: option.splits prod.splits if_splits ws_frame.splits)
  show "punch_turn e q i n = Some (b, snt, p', n') \<Longrightarrow> R n n'"
    by (auto simp: punch_turn_def Let_def dest!: flush dgram split: prod.splits option.splits if_splits intro: trans)
  show "R n (punch_close q n)"
    by (auto simp: punch_close_def Let_def refl intro!: after marks)
qed

lemma rtc_thread:
  "rtc_start k n = (r, n') \<Longrightarrow> R n n'" "rtc_turn e q i n = (b, snt, r', n') \<Longrightarrow> R n n'" "R n (rtc_close q n)"
proof -
  show "rtc_start k n = (r, n') \<Longrightarrow> R n n'"
    by (auto simp: rtc_start_def Let_def dest: number(3) split: prod.splits)
  have flush: "R m m'" if "rtc_flush f q m = (s, m')" for f q m s m'
    using that by (auto simp: rtc_flush_def refl split: option.splits intro: drain)
  have out: "R m m'" if "rtc_on_output e q x m = (q', m')" for q x m q' m'
    using that by (cases x) (auto simp: Let_def refl intro!: incoming marks after
        split: if_splits option.splits ws_frame.splits)
  have pump: "R m m'" if "rtc_pump e q xs m = (q', m')" for q xs m q' m'
    using that by (induction xs arbitrary: q m) (auto simp: refl split: prod.splits dest!: out intro: trans)
  show "rtc_turn e q i n = (b, snt, r', n') \<Longrightarrow> R n n'"
    by (auto simp: rtc_turn_def Let_def refl dest!: flush pump split: prod.splits if_splits intro: trans)
  show "R n (rtc_close q n)"
    by (auto simp: rtc_close_def rtc_cleanup_def Let_def refl intro!: after marks)
qed

lemma pull: "clip_pull_begin e k n = (r, n') \<Longrightarrow> R n n'" "clip_pull_end k c n = (x, n') \<Longrightarrow> R n n'"
proof -
  have s: "R n m'" if "new_channel n = (c, m)"
    "send_payload e a k b t (m\<lparr>clip_pending := hm_insert k c (clip_pending m)\<rparr>) = (y, m')" for c m a b t y m'
    by (rule trans [OF wait(1) [OF that(1)] sent [OF that(2)]])
  show "clip_pull_begin e k n = (r, n') \<Longrightarrow> R n n'"
    by (auto simp: clip_pull_begin_def Let_def refl split: if_splits prod.splits sum.splits
        dest: s intro!: after)
  show "clip_pull_end k c n = (x, n') \<Longrightarrow> R n n'"
    by (auto simp: clip_pull_end_def Let_def split: prod.splits option.splits chan_msg.splits
        dest!: received intro!: after)
qed

lemma signalled_in: "on_signal e io acc s pay n = (sp, n') \<Longrightarrow> R n n'"
proof -
  have ws: "R n n'" if "ws_connect e a b c ip port n = (r, n')" for a b c ip port r n'
    using that by (auto simp: ws_connect_def refl split: option.splits prod.splits dest: ws_thread(1))
  have ans: "R n (answer_waiter sid m (punch_waiters n) (\<lambda>w n. n\<lparr>punch_waiters := w\<rparr>) n)"
    "R n (answer_waiter sid m (rtc_waiters n) (\<lambda>w n. n\<lparr>rtc_waiters := w\<rparr>) n)" for sid m
    by (auto simp: answer_waiter_def refl intro: answer split: option.split)
  have "R n n'" if "on_sig e io acc s sig n = (sp, n')" for sig
    using that by (cases sig) (auto simp: Let_def refl ans intro: marks split: prod.splits sum.splits option.splits
        dest: ws dest!: signalled_out intro: trans)
  then show "on_signal e io acc s pay n = (sp, n') \<Longrightarrow> ?thesis"
    by (auto simp: on_signal_def refl split: option.splits)
qed

theorem step_in_law: "sys_step e greet s s' \<Longrightarrow> R (fst s) (fst s')"
proof (induction rule: sys_step.induct)
  case (ws_exit w r ok n w' sent n1 gone n' pre post)
  then show ?case using ws_thread(2,3) trans by (metis fst_conv)
next
  case (punch_end p i n sent p' n' pre post)
  then show ?case using punch_thread(2,3) trans by (metis fst_conv)
next
  case (rtc_end r i n sent r' n' pre post)
  then show ?case using rtc_thread(2,3) trans by (metis fst_conv)
qed (auto simp: operation ws_thread(4) hang_up wait
    dest: signalled_in ws_thread(1,2) punch_thread(1,2) rtc_thread(1,2) pull received)

end

end
