(* ===== verification/Simulation.thy ===== *)
theory Simulation
  imports Invariance
begin

text \<open>
  The program against its UI: an abstract UI that knows only connections and disconnections
  (\<open>ui_step\<close>) is refined by the whole transition system, with the live registry as the
  abstraction. Effects are never taken back (\<open>grows\<close>), so each step of the program is some
  steps of the UI.
\<close>

section \<open>Effects only grow\<close>

definition grows :: "net \<Rightarrow> net \<Rightarrow> bool" where
  "grows n n' = prefix (out n) (out n')"

lemma grows_refl [simp, intro]: "grows n n"
  by (simp add: grows_def)

lemma grows_trans [trans]: "grows n n' \<Longrightarrow> grows n' n'' \<Longrightarrow> grows n n''"
  unfolding grows_def by (rule prefix_order.trans)

lemma calm_grows: "calm n n' \<Longrightarrow> grows n n'"
  by (auto simp: calm_def grows_def)

lemmas traffic_grows = traffic_calm [THEN calm_grows]

interpretation growth: step_law grows e for e
proof unfold_locales
  fix n :: net and eff q sender node proto body
  show "grows n (effect eff n)" by (simp add: grows_def effect_def)
  show "grows n (snd (http_call e q n))" by (simp add: grows_def world_simps)
  show "grows n (snd (send_payload e sender node proto body n))" by (rule traffic_grows [OF send_payload_traffic])
next
  fix n :: net and ident reply targets
  show "grows n (send_beacon e ident reply targets n)" by (rule traffic_grows [OF send_beacon_traffic])
next
  fix n :: net and kl tk ad
  show "grows n (mark_live e kl tk ad n)" "grows n (touch_live e kl n)" "grows n (drop_live kl n)"
    by (auto simp: grows_def mark_live_def touch_live_def drop_live_def world_simps split: option.split)
qed (auto simp: grows_def emit_def new_channel_def chan_send_def chan_drop_def Let_def split: option.split)

lemmas sys_step_grows = growth.step_in_law

section \<open>Runs\<close>

definition tells :: "net \<Rightarrow> net \<Rightarrow> bool" where
  "tells n n' = (dots_ok n \<longrightarrow> dots_ok n')"

lemma calm_tells: "calm n n' \<Longrightarrow> tells n n'"
  using calm_dots by (simp add: tells_def)

interpretation telling: step_law tells e for e
proof unfold_locales
  fix n :: net and q sender node proto body
  show "tells n (snd (http_call e q n))" by (rule calm_tells) (auto simp: calm_def world_simps)
  show "tells n (snd (send_payload e sender node proto body n))"
    by (rule calm_tells [OF traffic_calm [OF send_payload_traffic]])
next
  fix n :: net and ident reply targets
  show "tells n (send_beacon e ident reply targets n)" by (rule calm_tells [OF traffic_calm [OF send_beacon_traffic]])
next
  fix n :: net and kl tk ad
  show "tells n (mark_live e kl tk ad n)" "tells n (touch_live e kl n)" "tells n (drop_live kl n)"
    by (simp_all add: tells_def dots_ok_mark_live dots_ok_touch_live dots_ok_drop_live)
next
  fix n n' n'' :: net
  show "tells n n' \<Longrightarrow> tells n' n'' \<Longrightarrow> tells n n''" by (simp add: tells_def)
next
  fix n :: net and eff
  show "\<not> dot_event eff \<Longrightarrow> tells n (effect eff n)" by (rule calm_tells) (simp add: calm_def effect_def)
qed (auto intro!: calm_tells simp: calm_def emit_def new_channel_def chan_drop_def chan_send_def Let_def
    split: option.split)

lemma reachable_dots: "reachable e greet s \<Longrightarrow> dots_ok (fst s)"
proof (induction rule: reachable.induct)
  case (start tcp udp ws disco n)
  then show ?case using engine_start_ok by simp
next
  case (step s s')
  then show ?case using telling.step_in_law by (auto simp: tells_def)
qed

lemma reachable_owned: "reachable e True s \<Longrightarrow> owned s"
proof (induction rule: reachable.induct)
  case (start tcp udp ws disco n)
  then show ?case using engine_start_ok by blast
next
  case (step s s')
  then show ?case using sys_step_owned by blast
qed

text \<open>The reassembly state of every punched link stays well formed.\<close>

fun pending_thread :: "thread \<Rightarrow> bool" where
  "pending_thread (PunchT p) = pending_ok (pc_pending p)"
| "pending_thread _ = True"

lemma sys_step_pending:
  "sys_step e greet s s' \<Longrightarrow> list_all pending_thread (snd s) \<Longrightarrow> list_all pending_thread (snd s')"
proof (induction rule: sys_step.induct)
  case (signal io acc s pay n sp n' ts)
  have "list_all pending_thread (started sp)"
    by (induction sp) (auto simp: started_def List.map_filter_def split: spawned.split)
  then show ?case using signal by simp
next
  case (punch_open now a k n p n' ts)
  then have "list_all pending_thread (case p of None \<Rightarrow> [] | Some p \<Rightarrow> [PunchT p])"
    by (auto simp: punch_start_def pending_ok_def Let_def split: prod.splits if_splits)
  then show ?case using punch_open by simp
next
  case (punch_turn p i n sent p' n' pre post)
  then have "pending_ok (pc_pending p)" by simp
  from punch_turn_total [OF this, of e i n] show ?case using punch_turn by auto
qed (auto split: sum.split)

lemma reachable_pending: "reachable e greet s \<Longrightarrow> list_all pending_thread (snd s)"
  by (induction rule: reachable.induct) (auto intro: sys_step_pending)

section \<open>Properties\<close>




text \<open>C16: a punched link's thread never panics. In every reachable state, whatever datagram a
  punched link's driver receives next (any length, any content), its turn completes.\<close>

theorem punch_driver_never_panics:
  assumes "reachable e greet (n, ts)" "PunchT p \<in> set ts"
  shows "punch_turn e p i n \<noteq> None"
proof -
  have "pending_ok (pc_pending p)"
    using reachable_pending [OF assms(1)] assms(2) by (auto simp: list_all_iff)
  from punch_turn_total [OF this, of e i n] show ?thesis by auto
qed

section \<open>A run\<close>

text \<open>The engine starts, and a punched link to \<open>''B''\<close> opens.\<close>

definition sample_start :: net where
  "sample_start = fresh_net sample_env ''A'' 1 2 3"

lemma sample_reachable: "reachable sample_env greet (sample_start, [])"
proof (rule reachable.start)
  have "trim ''A'' = ''A''" by (simp add: trim_trimmed trimmed_printable printable_def)
  then show "engine_start sample_env (Inr 1) (Inr 2) (Inr 3) (Inr ()) = Inr sample_start"
    by (simp add: engine_start_def sample_start_def sample_env_def Let_def)
qed

definition sample_opened :: "punch_conn option \<times> net" where
  "sample_opened = punch_start sample_env 0 (V4 (Ipv4 10 0 0 3) 9) ''B'' sample_start"

definition sample_driver :: punch_conn where
  "sample_driver = \<lparr>pc_id = 1000000, pc_chan = 0, pc_node = ''B'', pc_addr = V4 (Ipv4 10 0 0 3) 9,
     pc_last_ka = 0, pc_next_msg = 0, pc_pending = []\<rparr>"

lemma sample_opened_facts:
  "fst sample_opened = Some sample_driver"
  "hm_get (p2p_conns (snd sample_opened)) ''B'' = Some \<lparr>l_kind = Punch, l_last_seen = 2, l_addr = Some (V4 (Ipv4 10 0 0 3) 9)\<rparr>"
  "hm_get (ws_conns (snd sample_opened)) ''B'' = Some (1000000, 0)"
  by (simp_all add: sample_opened_def punch_start_def new_channel_def sample_start_def fresh_net_def Let_def
      hm_contains_def mark_live_def sample_driver_def world_simps) (simp add: sample_env_def)

lemma sample_step: "sys_step sample_env greet (sample_start, []) (snd sample_opened, [PunchT sample_driver])"
proof -
  have "punch_start sample_env 0 (V4 (Ipv4 10 0 0 3) 9) ''B'' sample_start = (Some sample_driver, snd sample_opened)"
    using sample_opened_facts(1) by (simp add: sample_opened_def prod_eq_iff)
  from sys_step.punch_open [OF this, of greet "[]"] show ?thesis by simp
qed

lemma sample_linked: "reachable sample_env greet (snd sample_opened, [PunchT sample_driver])"
  by (rule reachable.step [OF sample_reachable sample_step])




theorem punch_driver_never_panics_witness:
  "punch_turn sample_env sample_driver
     \<lparr>pt_io = \<lambda>_ _. None, pt_elapsed = 0, pt_now = 0, pt_dgram = Some ([1, 2], Ipv4 10 0 0 3, 9)\<rparr>
     (snd sample_opened) \<noteq> None"
  by (rule punch_driver_never_panics [OF sample_linked]) simp

end
