(* ===== verification/WellFormed.thy ===== *)
theory WellFormed
  imports Simulation
begin

text \<open>
  The shared tables stay well formed: each map has one entry per key, each peer is filed
  under its own node id and the registry of control handlers is the default one, in every
  reachable state. A change that does not break this \<open>keeps\<close> it, and every step
  is made of such changes (\<open>step_law\<close>).
\<close>

section \<open>The invariant\<close>

definition table_ok :: "(string, peer) hmap \<Rightarrow> bool" where
  "table_ok m = (hm_ok m \<and> (\<forall>k p. hm_get m k = Some p \<longrightarrow> p_node_id p = k))"

lemma table_ok_insert: "table_ok m \<Longrightarrow> p_node_id p = k \<Longrightarrow> table_ok (hm_insert k p m)"
  by (simp add: table_ok_def)

lemma table_ok_filter: "table_ok m \<Longrightarrow> table_ok (filter P m)"
proof -
  assume t: "table_ok m"
  then have "hm_ok (filter P m)" by (simp add: table_ok_def hm_ok_def hm_keys_def distinct_map_filter)
  moreover have "hm_get m k = Some p" if "hm_get (filter P m) k = Some p" for k p
    using hm_get_in_set [OF that] t by (intro hm_in_set_get) (simp_all add: table_ok_def)
  ultimately show ?thesis using t by (simp add: table_ok_def)
qed

lemma table_ok_listed: "table_ok m \<Longrightarrow> map (p_node_id \<circ> snd) m = hm_keys m"
proof -
  assume t: "table_ok m"
  have "p_node_id (snd x) = fst x" if "x \<in> set m" for x
    using hm_in_set_get [of m "fst x" "snd x"] that t by (simp add: table_ok_def)
  then show ?thesis by (simp add: hm_keys_def)
qed

definition wf_net :: "env \<Rightarrow> net \<Rightarrow> bool" where
  "wf_net e n =
     (table_ok (peers n) \<and> hm_ok (ws_conns n) \<and> hm_ok (p2p_conns n) \<and> hm_ok (punch_waiters n) \<and>
      hm_ok (rtc_waiters n) \<and> hm_ok (clip_pending n) \<and> hm_ok (subs n) \<and> hm_ok (chans n) \<and>
      control n = with_defaults (has_clipboard e))"

text \<open>A change that leaves the tables' keys and the handlers alone keeps it.\<close>

lemma wf_same:
  assumes "peers n' = peers n" "ws_conns n' = ws_conns n" "p2p_conns n' = p2p_conns n"
    "punch_waiters n' = punch_waiters n" "rtc_waiters n' = rtc_waiters n"
    "clip_pending n' = clip_pending n" "subs n' = subs n" "hm_keys (chans n') = hm_keys (chans n)"
    "control n' = control n"
  shows "wf_net e n' = wf_net e n"
  using assms by (simp add: wf_net_def hm_ok_def)

lemma wf_traffic: "traffic n n' \<Longrightarrow> wf_net e n \<Longrightarrow> wf_net e n'"
  by (subst wf_same) (simp_all add: traffic_fields, simp add: traffic_def)

definition keeps :: "env \<Rightarrow> net \<Rightarrow> net \<Rightarrow> bool" where
  "keeps e n n' = (wf_net e n \<longrightarrow> wf_net e n')"

lemma keeps_traffic: "traffic n n' \<Longrightarrow> keeps e n n'"
  using wf_traffic by (simp add: keeps_def)

interpretation tables: step_law "keeps e" e for e
proof unfold_locales
  fix n eff q
  show "keeps e n (effect eff n)" by (simp add: keeps_def wf_net_def effect_def)
  show "keeps e n (snd (http_call e q n))" by (simp add: keeps_def wf_net_def world_simps)
next
  fix n sender node proto body
  show "keeps e n (snd (send_payload e sender node proto body n))"
    by (rule keeps_traffic [OF send_payload_traffic])
next
  fix n ident reply targets
  show "keeps e n (send_beacon e ident reply targets n)" by (rule keeps_traffic [OF send_beacon_traffic])
next
  fix n kl tk ad
  show "keeps e n (mark_live e kl tk ad n)" "keeps e n (touch_live e kl n)" "keeps e n (drop_live kl n)"
    by (auto simp: keeps_def wf_net_def mark_live_def touch_live_def drop_live_def world_simps split: option.split)
qed (auto simp: keeps_def wf_net_def emit_def new_channel_def chan_drop_def chan_send_def Let_def
    table_ok_insert table_ok_filter split: option.split)

lemmas sys_step_keeps = tables.step_in_law

lemma engine_start_wf: "engine_start e tcp udp ws disco = Inr n \<Longrightarrow> wf_net e n"
  by (auto simp: engine_start_def fresh_net_def wf_net_def table_ok_def Let_def split: sum.splits)

lemma reachable_wf: "reachable e greet s \<Longrightarrow> wf_net e (fst s)"
  by (induction rule: reachable.induct) (use sys_step_keeps keeps_def engine_start_wf in \<open>force+\<close>)

section \<open>Property\<close>

text \<open>C24: the shared tables stay well formed. In every reachable state each table has one entry
  per key; every peer is filed under its own node id, so that the list the UI is given names
  no device twice; the list of connected peers has no repetition; and the registry of control
  handlers is the one set up at the start.\<close>

theorem tables_well_formed:
  assumes "reachable e greet (n, ts)"
  shows "distinct (map p_node_id (get_peers n)) \<and> distinct (connected_peers n) \<and>
    (hm_get (peers n) k = Some p \<longrightarrow> p_node_id p = k) \<and>
    hm_ok (ws_conns n) \<and> hm_ok (punch_waiters n) \<and> hm_ok (rtc_waiters n) \<and>
    hm_ok (clip_pending n) \<and> hm_ok (subs n) \<and> hm_ok (chans n) \<and>
    control n = with_defaults (has_clipboard e)"
proof -
  have w: "wf_net e n" using reachable_wf [OF assms] by simp
  then have "map p_node_id (get_peers n) = hm_keys (peers n)"
    using table_ok_listed [of "peers n"] by (simp add: wf_net_def get_peers_def o_def)
  then show ?thesis using w by (simp add: wf_net_def table_ok_def hm_ok_def connected_peers_def)
qed

theorem tables_well_formed_witness:
  "distinct (connected_peers (snd sample_opened)) \<and> ''B'' \<in> set (connected_peers (snd sample_opened)) \<and>
   control (snd sample_opened) = with_defaults True"
  using tables_well_formed [OF sample_linked] hm_keys_dom [of "p2p_conns (snd sample_opened)"]
  by (simp add: connected_peers_def sample_opened_facts domI sample_env_def)

end
