(* ===== verification/Secrecy.thy ===== *)
theory Secrecy
  imports Simulation
begin

text \<open>
  Confidentiality in every run: what reaches a socket or the queue of a link thread is sealed
  under a key derived from a passphrase, or is a beacon. Queues of waiting calls carry
  answers in the clear, inside the program; they are never a link's.
\<close>

section \<open>What may leave\<close>

definition sealed :: "env \<Rightarrow> envelope \<Rightarrow> bool" where
  "sealed e env = (\<exists>phrase name k pt m. derive_key e phrase name = Some k \<and> fst (encrypt e k pt m) = Some env)"

fun wire_ok :: "env \<Rightarrow> effect \<Rightarrow> bool" where
  "wire_ok e (Io (TcpWrite a b) r) = (\<exists>env. sealed e env \<and> envelope_to_vec e env = Inr b)"
| "wire_ok e (Io (UdpSend a b) r) =
     ((\<exists>env. sealed e env \<and> envelope_to_vec e env = Inr b) \<or> (\<exists>x. beacon_to_vec e x = Some b))"
| "wire_ok e _ = True"

fun frame_ok :: "env \<Rightarrow> chan_msg \<Rightarrow> bool" where
  "frame_ok e (StrMsg f) = (\<exists>env. sealed e env \<and> frame_to_string e (Msg (e_nonce env) (e_ciphertext env)) = Inr f)"
| "frame_ok e (CandMsg c) = False"

text \<open>The channels whose senders wait in a table for an answer.\<close>

definition waiting :: "net \<Rightarrow> nat set" where
  "waiting n = ran (hm_get (clip_pending n)) \<union> ran (hm_get (punch_waiters n)) \<union> ran (hm_get (rtc_waiters n))"

text \<open>\<open>discreet e L n\<close>: the invariant, for the channels \<open>L\<close> that link threads read.\<close>

definition discreet :: "env \<Rightarrow> nat set \<Rightarrow> net \<Rightarrow> bool" where
  "discreet e L n =
     ((\<forall>k. key n = Some k \<longrightarrow> (\<exists>phrase name. derive_key e phrase name = Some k)) \<and>
      list_all (wire_ok e) (out n) \<and>
      (\<forall>c \<in> L \<union> waiting n. c < next_chan n) \<and> L \<inter> waiting n = {} \<and>
      (\<forall>c \<in> L. \<forall>q. hm_get (chans n) c = Some q \<longrightarrow> list_all (frame_ok e) q))"

definition hush :: "env \<Rightarrow> nat set \<Rightarrow> net \<Rightarrow> net \<Rightarrow> bool" where
  "hush e L n n' = (discreet e L n \<longrightarrow> discreet e L n')"

section \<open>Every change keeps it\<close>

lemma discreetD:
  assumes "discreet e L n"
  shows "key n = Some k \<Longrightarrow> \<exists>phrase name. derive_key e phrase name = Some k" "list_all (wire_ok e) (out n)"
    "c \<in> L \<Longrightarrow> c < next_chan n" "c \<in> waiting n \<Longrightarrow> c < next_chan n" "c \<in> L \<Longrightarrow> c \<notin> waiting n"
    "c \<in> L \<Longrightarrow> hm_get (chans n) c = Some q \<Longrightarrow> list_all (frame_ok e) q"
  using assms by (auto simp: discreet_def)

lemma discreetI:
  assumes "\<And>k. key n = Some k \<Longrightarrow> \<exists>phrase name. derive_key e phrase name = Some k" "list_all (wire_ok e) (out n)"
    "\<And>c. c \<in> L \<Longrightarrow> c < next_chan n" "\<And>c. c \<in> waiting n \<Longrightarrow> c < next_chan n" "\<And>c. c \<in> L \<Longrightarrow> c \<notin> waiting n"
    "\<And>c q. c \<in> L \<Longrightarrow> hm_get (chans n) c = Some q \<Longrightarrow> list_all (frame_ok e) q"
  shows "discreet e L n"
  using assms unfolding discreet_def by blast

lemma sealed_asD:
  assumes "sealed_as e k t env" "k = key n" "discreet e L n"
  shows "sealed e env"
proof -
  obtain k' s pt m where k: "key n = Some k'" "fst (encrypt e k' pt m) = Some env"
    using assms(1,2) by (auto simp: sealed_as_def)
  from discreetD(1) [OF assms(3) k(1)] k(2) show ?thesis unfolding sealed_def by blast
qed

lemma sealed_effect_wire: "sealed_effect e (key n) t x \<Longrightarrow> discreet e L n \<Longrightarrow> wire_ok e x"
  by (cases "(e, key n, t, x)" rule: sealed_effect.cases) (auto dest: sealed_asD)

lemma sealed_frame_ok: "sealed_frame e (key n) t f \<Longrightarrow> discreet e L n \<Longrightarrow> frame_ok e (StrMsg f)"
  by (auto simp: sealed_frame_def dest: sealed_asD)

lemma hush_sealed:
  assumes "traffic n n'" "sealed_growth e t n n'"
  shows "hush e L n n'"
proof -
  have "discreet e L n'" if d: "discreet e L n"
  proof -
    obtain xs where xs: "out n' = out n @ xs" "list_all (sealed_effect e (key n) t) xs"
      using assms(2) by (auto simp: sealed_growth_def)
    have "list_all (wire_ok e) (out n')"
      using xs d sealed_effect_wire [OF _ d] by (auto simp: discreet_def list_all_iff)
    moreover have "list_all (frame_ok e) q" if c: "c \<in> L" and q: "hm_get (chans n') c = Some q" for c q
    proof -
      obtain fs where fs: "hm_get (chans n') c = map_option (\<lambda>q. q @ map StrMsg fs) (hm_get (chans n) c)"
        "list_all (sealed_frame e (key n) t) fs"
        using assms(2) by (auto simp: sealed_growth_def)
      obtain p where p: "hm_get (chans n) c = Some p" "q = p @ map StrMsg fs"
        using fs(1) q by (cases "hm_get (chans n) c") auto
      have "list_all (frame_ok e) p" using d c p(1) by (simp add: discreet_def)
      moreover have "list_all (frame_ok e) (map StrMsg fs)"
        unfolding list.pred_map comp_def by (rule list.pred_mono_strong [OF fs(2)]) (rule sealed_frame_ok [OF _ d])
      ultimately show ?thesis using p(2) by simp
    qed
    ultimately show ?thesis using d by (simp add: discreet_def waiting_def traffic_fields [OF assms(1)])
  qed
  then show ?thesis by (simp add: hush_def)
qed

lemma send_beacon_wire: "\<exists>xs. out (send_beacon e i r ts n) = out n @ xs \<and> list_all (wire_ok e) xs"
proof (cases "beacon_to_vec e (beacon_of i r)")
  case (Some b)
  have "\<exists>xs. out (foldl (\<lambda>n dst. snd (perform e (UdpSend dst b) n)) n ts) = out n @ xs \<and> list_all (wire_ok e) xs" for n
  proof (induction ts arbitrary: n)
    case (Cons t ts)
    obtain xs where "out (foldl (\<lambda>n dst. snd (perform e (UdpSend dst b) n)) (snd (perform e (UdpSend t b) n)) ts) =
        out n @ (Io (UdpSend t b) (io_result e (tick n) (UdpSend t b)) # xs)" "list_all (wire_ok e) xs"
      using Cons [of "snd (perform e (UdpSend t b) n)"] by (auto simp: world_simps)
    then show ?case using Some by (intro exI conjI) (simp, simp, blast)
  qed simp
  from this [of "snd (perform e SetBroadcast n)"] show ?thesis
    by (auto simp: send_beacon_def Some Let_def) (auto simp: world_simps)
qed (simp add: send_beacon_def)

lemma send_beacon_chans: "chans (send_beacon e i r ts n) = chans n"
proof -
  have "chans (foldl (\<lambda>n dst. snd (perform e (f dst) n)) n ts) = chans n" for f n
    by (induction ts arbitrary: n) (simp_all add: world_simps)
  then show ?thesis by (simp add: send_beacon_def Let_def world_simps split: option.split)
qed

lemma hush_beacon: "hush e L n (send_beacon e i r ts n)"
proof -
  obtain xs where "out (send_beacon e i r ts n) = out n @ xs" "list_all (wire_ok e) xs"
    using send_beacon_wire by blast
  then show ?thesis
    by (simp add: hush_def discreet_def waiting_def send_beacon_chans traffic_fields [OF send_beacon_traffic])
qed

lemma ran_remove: "x \<in> ran (hm_get (hm_remove k m)) \<Longrightarrow> x \<in> ran (hm_get m)"
  by (auto simp: ran_def split: if_splits)

lemma ran_insert: "x \<in> ran (hm_get (hm_insert k c m)) \<Longrightarrow> x = c \<or> x \<in> ran (hm_get m)"
  by (auto simp: ran_def split: if_splits)

lemma waits: "hm_get (clip_pending n) k = Some c \<Longrightarrow> c \<in> waiting n"
  "hm_get (punch_waiters n) k = Some c \<Longrightarrow> c \<in> waiting n" "hm_get (rtc_waiters n) k = Some c \<Longrightarrow> c \<in> waiting n"
  by (auto simp: waiting_def ran_def)

lemma waiting_remove:
  "waiting (n\<lparr>clip_pending := hm_remove k (clip_pending n)\<rparr>) \<subseteq> waiting n"
  "waiting (n\<lparr>punch_waiters := hm_remove k (punch_waiters n)\<rparr>) \<subseteq> waiting n"
  "waiting (n\<lparr>rtc_waiters := hm_remove k (rtc_waiters n)\<rparr>) \<subseteq> waiting n"
  by (auto simp: waiting_def dest: ran_remove)

lemma discreet_shrink:
  assumes d: "discreet e L n" and "key n' = key n" "out n' = out n" and w: "waiting n' \<subseteq> waiting n"
    and "next_chan n' = next_chan n" and q: "\<And>c. c \<in> L \<Longrightarrow> hm_get (chans n') c = hm_get (chans n) c"
  shows "discreet e L n'"
proof (rule discreetI)
  show "c \<in> waiting n' \<Longrightarrow> c < next_chan n'" "c \<in> L \<Longrightarrow> c \<notin> waiting n'" for c
    using discreetD(4,5) [OF d] w assms(5) by auto
  show "c \<in> L \<Longrightarrow> hm_get (chans n') c = Some r \<Longrightarrow> list_all (frame_ok e) r" for c r
    using discreetD(6) [OF d] q by simp
qed (use discreetD(1-3) [OF d] assms in simp_all)

text \<open>An answer goes to a waiting channel, so to no link.\<close>

lemma discreet_answer:
  assumes "discreet e L n" "tx \<in> waiting n" "key m = key n" "out m = out n" "waiting m \<subseteq> waiting n"
    "next_chan m = next_chan n" "chans m = chans n"
  shows "discreet e L (snd (chan_send tx msg m))"
proof (rule discreet_shrink [OF assms(1)])
  show "c \<in> L \<Longrightarrow> hm_get (chans (snd (chan_send tx msg m))) c = hm_get (chans n) c" for c
    using discreetD(5) [OF assms(1)] assms(2,7) by (auto simp: chan_send_def split: option.split)
  show "waiting (snd (chan_send tx msg m)) \<subseteq> waiting n"
    using assms(5) by (simp add: chan_send_def waiting_def split: option.split)
qed (use assms in \<open>simp_all add: chan_send_def split: option.split\<close>)

lemma discreet_channel:
  assumes d: "discreet e L n" and "new_channel n = (c, m)" "key n' = key m" "out n' = out m" "chans n' = chans m"
    "next_chan n' = next_chan m" and w: "waiting n' \<subseteq> insert c (waiting n)"
  shows "discreet e L n'"
proof -
  have c: "c = next_chan n" and m: "m = n\<lparr>next_chan := Suc c, chans := hm_insert c [] (chans n)\<rparr>"
    using assms(2) by (auto simp: new_channel_def Let_def)
  have L: "d \<noteq> c" if "d \<in> L" for d using discreetD(3) [OF d that] c by simp
  show ?thesis
  proof (rule discreetI)
    show "x \<in> waiting n' \<Longrightarrow> x < next_chan n'" for x
      using discreetD(4) [OF d, of x] w assms(6) c m by auto
    show "x \<in> L \<Longrightarrow> x \<notin> waiting n'" for x using discreetD(5) [OF d, of x] w L by auto
    show "x \<in> L \<Longrightarrow> hm_get (chans n') x = Some q \<Longrightarrow> list_all (frame_ok e) q" for x q
      using discreetD(6) [OF d, of x q] L [of x] assms(5) m by simp
    show "x \<in> L \<Longrightarrow> x < next_chan n'" for x using discreetD(3) [OF d, of x] assms(6) m c by simp
  qed (use discreetD(1,2) [OF d] assms m in simp_all)
qed

text \<open>The channel of a new link thread joins the others.\<close>

lemma discreet_link:
  assumes d: "discreet e L n" and "new_channel n = (c, m)"
  shows "discreet e (insert c L) m"
proof -
  have c: "c = next_chan n" and m: "m = n\<lparr>next_chan := Suc c, chans := hm_insert c [] (chans n)\<rparr>"
    using assms(2) by (auto simp: new_channel_def Let_def)
  have m': "discreet e L m" by (rule discreet_channel [OF assms]) (auto simp: m waiting_def)
  have w: "waiting m = waiting n" by (simp add: m waiting_def)
  show ?thesis
  proof (rule discreetI)
    show "x \<in> insert c L \<Longrightarrow> x \<notin> waiting m" for x
      using discreetD(5) [OF m', of x] discreetD(4) [OF d, of x] w c by auto
    show "x \<in> insert c L \<Longrightarrow> hm_get (chans m) x = Some q \<Longrightarrow> list_all (frame_ok e) q" for x q
      using discreetD(6) [OF m', of x q] by (cases "x = c") (simp_all add: m)
    show "x \<in> insert c L \<Longrightarrow> x < next_chan m" for x using discreetD(3) [OF m', of x] m by auto
  qed (use discreetD(1,2,4) [OF m'] in simp_all)
qed

lemma discreet_same:
  "\<lbrakk>discreet e L n; key n' = key n; out n' = out n; clip_pending n' = clip_pending n;
    punch_waiters n' = punch_waiters n; rtc_waiters n' = rtc_waiters n; next_chan n' = next_chan n;
    chans n' = chans n\<rbrakk> \<Longrightarrow> discreet e L n'"
  by (rule discreet_shrink) (simp_all add: waiting_def)

lemma discreet_effect: "discreet e L n \<Longrightarrow> wire_ok e x \<Longrightarrow> discreet e L (effect x n)"
  by (auto simp: discreet_def effect_def waiting_def)

lemma local_wire: "\<not> is_io x \<Longrightarrow> wire_ok e x"
  by (cases x) simp_all

lemma discreet_setters [simp]:
  "discreet e L (n\<lparr>ws_seq := x\<rparr>) = discreet e L n" "discreet e L (n\<lparr>punch_seq := x\<rparr>) = discreet e L n"
  "discreet e L (n\<lparr>rtc_seq := x\<rparr>) = discreet e L n" "discreet e L (n\<lparr>ws_conns := y\<rparr>) = discreet e L n"
  by (simp_all add: discreet_def waiting_def)

interpretation secrecy: step_law "hush e L" e for e L
proof unfold_locales
  fix n n' n'' :: net
  show "hush e L n n' \<Longrightarrow> hush e L n' n'' \<Longrightarrow> hush e L n n''" by (simp add: hush_def)
  show "\<lbrakk>key n' = key n; peers n' = peers n; ws_conns n' = ws_conns n; p2p_conns n' = p2p_conns n;
        punch_waiters n' = punch_waiters n; rtc_waiters n' = rtc_waiters n; clip_pending n' = clip_pending n;
        control n' = control n; subs n' = subs n; chans n' = chans n; next_chan n' = next_chan n;
        out n' = out n\<rbrakk> \<Longrightarrow> hush e L n n'"
    unfolding hush_def by (metis discreet_same)
next
  fix n :: net and phrase name :: string and x
  show "derive_key e phrase name = Some x \<Longrightarrow> hush e L n (n\<lparr>key := Some x\<rparr>)"
    by (auto simp: hush_def discreet_def waiting_def)
next
  fix n :: net and eff q
  show "\<not> is_io eff \<Longrightarrow> hush e L n (effect eff n)"
    by (simp add: hush_def discreet_effect local_wire)
  have "discreet e L n \<Longrightarrow> discreet e L (advance n)" by (erule discreet_same) (simp_all add: advance_def)
  then show "hush e L n (snd (http_call e q n))"
    by (simp add: hush_def http_call_def Let_def discreet_effect)
next
  fix n sender node proto body
  show "hush e L n (snd (send_payload e sender node proto body n))"
    by (rule hush_sealed [OF send_payload_traffic send_payload_sealed_growth])
next
  fix n ident reply targets
  show "hush e L n (send_beacon e ident reply targets n)" by (rule hush_beacon)
next
  fix n kl tk ad
  show "hush e L n (mark_live e kl tk ad n)" "hush e L n (touch_live e kl n)" "hush e L n (drop_live kl n)"
    by (simp_all add: hush_def mark_live_def touch_live_def drop_live_def world_simps discreet_def waiting_def
        Let_def split: option.split)
next
  fix n ka tx msg
  show "hm_get (clip_pending n) ka = Some tx \<Longrightarrow>
      hush e L n (snd (chan_send tx msg (n\<lparr>clip_pending := hm_remove ka (clip_pending n)\<rparr>)))"
    by (simp add: hush_def discreet_answer [OF _ waits(1) _ _ waiting_remove(1)])
  show "hm_get (punch_waiters n) ka = Some tx \<Longrightarrow>
      hush e L n (snd (chan_send tx msg (n\<lparr>punch_waiters := hm_remove ka (punch_waiters n)\<rparr>)))"
    by (simp add: hush_def discreet_answer [OF _ waits(2) _ _ waiting_remove(2)])
  show "hm_get (rtc_waiters n) ka = Some tx \<Longrightarrow>
      hush e L n (snd (chan_send tx msg (n\<lparr>rtc_waiters := hm_remove ka (rtc_waiters n)\<rparr>)))"
    by (simp add: hush_def discreet_answer [OF _ waits(3) _ _ waiting_remove(3)])
next
  fix n :: net and kw
  show "hush e L n (n\<lparr>clip_pending := hm_remove kw (clip_pending n)\<rparr>)"
    "hush e L n (n\<lparr>punch_waiters := hm_remove kw (punch_waiters n)\<rparr>)"
    "hush e L n (n\<lparr>rtc_waiters := hm_remove kw (rtc_waiters n)\<rparr>)"
    unfolding hush_def by (auto elim!: discreet_shrink intro!: waiting_remove)
next
  fix n n' :: net and ch kn
  assume c: "new_channel n = (ch, n')"
  have "waiting n' = waiting n" using c by (auto simp: new_channel_def waiting_def Let_def)
  then have w: "waiting n' \<subseteq> insert ch (waiting n)"
    "waiting (n'\<lparr>clip_pending := hm_insert kn ch (clip_pending n')\<rparr>) \<subseteq> insert ch (waiting n)"
    "waiting (n'\<lparr>punch_waiters := hm_insert kn ch (punch_waiters n')\<rparr>) \<subseteq> insert ch (waiting n)"
    "waiting (n'\<lparr>rtc_waiters := hm_insert kn ch (rtc_waiters n')\<rparr>) \<subseteq> insert ch (waiting n)"
    by (auto simp: waiting_def dest: ran_insert)
  show "hush e L n n'" "hush e L n (n'\<lparr>ws_seq := ws_seq n' + 1\<rparr>)"
    "hush e L n (n'\<lparr>punch_seq := punch_seq n' + 1\<rparr>)" "hush e L n (n'\<lparr>rtc_seq := rtc_seq n' + 1\<rparr>)"
    "hush e L n (n'\<lparr>clip_pending := hm_insert kn ch (clip_pending n')\<rparr>)"
    "hush e L n (n'\<lparr>punch_waiters := hm_insert kn ch (punch_waiters n')\<rparr>)"
    "hush e L n (n'\<lparr>rtc_waiters := hm_insert kn ch (rtc_waiters n')\<rparr>)"
    unfolding hush_def using w by (auto elim!: discreet_channel [OF _ c])
next
  fix n :: net and cd qu qu'
  assume q: "hm_get (chans n) cd = Some qu" "suffix qu' qu"
  show "hush e L n (n\<lparr>chans := hm_insert cd qu' (chans n)\<rparr>)"
    unfolding hush_def
  proof (intro impI discreetI)
    assume d: "discreet e L n"
    show "c \<in> L \<Longrightarrow> hm_get (chans (n\<lparr>chans := hm_insert cd qu' (chans n)\<rparr>)) c = Some r \<Longrightarrow> list_all (frame_ok e) r" for c r
      using discreetD(6) [OF d, of c] q set_mono_suffix by (cases "c = cd") (fastforce simp: list_all_iff)+
  qed (use discreetD(1-5) in \<open>auto simp: waiting_def\<close>)
next
  fix n :: net and cx
  show "hush e L n (chan_drop cx n)"
    by (auto simp: hush_def chan_drop_def discreet_def waiting_def split: if_splits)
qed (simp_all add: hush_def discreet_def waiting_def emit_def)


section \<open>The queues of the running links\<close>

fun listens :: "thread \<Rightarrow> nat set" where
  "listens (Caller c) = {}"
| "listens t = {fst (snd (thread_sig t))}"

definition heard :: "sys \<Rightarrow> nat set" where
  "heard s = (\<Union>t \<in> set (snd s). listens t)"

lemma heard_simps [simp]:
  "heard (n, []) = {}" "heard (n, t # ts) = listens t \<union> heard (n, ts)" "heard (n, pre @ post) = heard (n, pre) \<union> heard (n, post)"
  by (auto simp: heard_def)

lemma listens_link [simp]:
  "listens (WsT w) = {wc_chan w}" "listens (WsGone w g) = {wc_chan w}" "listens (PunchT p) = {pc_chan p}" "listens (RtcT r) = {rc_chan r}"
  by (simp_all add: rtc_sig_def)

lemma discreet_fewer: "discreet e L n \<Longrightarrow> L' \<subseteq> L \<Longrightarrow> discreet e L' n"
  by (auto simp: discreet_def)

text \<open>A new thread brings an empty queue.\<close>

lemma ws_start_discreet: "discreet e L n \<Longrightarrow> ws_start e n = (h, w, n') \<Longrightarrow> discreet e (insert (wc_chan w) L) n'"
  by (cases "new_channel n") (auto simp: ws_start_def Let_def dest: discreet_link)

lemma rtc_start_discreet: "discreet e L n \<Longrightarrow> rtc_start k n = (r, n') \<Longrightarrow> discreet e (insert (rc_chan r) L) n'"
  by (cases "new_channel n") (auto simp: rtc_start_def Let_def dest: discreet_link)

lemma punch_start_discreet:
  assumes d: "discreet e L n" and s: "punch_start e now a k n = (Some p, n')"
  shows "discreet e (insert (pc_chan p) L) n'"
proof -
  obtain c n1 where c: "new_channel n = (c, n1)" by fastforce
  let ?n2 = "n1\<lparr>punch_seq := punch_seq n1 + 1\<rparr>"
  have p: "pc_chan p = c" and n': "n' = mark_live e k Punch (Some a) (?n2\<lparr>ws_conns := hm_insert k (punch_seq n1, c) (ws_conns ?n2)\<rparr>)"
    using s by (auto simp: punch_start_def c Let_def split: if_splits)
  have "discreet e (insert c L) (?n2\<lparr>ws_conns := hm_insert k (punch_seq n1, c) (ws_conns ?n2)\<rparr>)"
    using discreet_link [OF d c] by simp
  then show ?thesis unfolding p n' using secrecy.live(1) unfolding hush_def by blast
qed

lemma on_signal_discreet:
  assumes d: "discreet e (heard (n, ts)) n" and o: "on_signal e io acc s pay n = (sp, n')"
  shows "discreet e (heard (n', started sp @ ts)) n'"
  using on_signal_starts [OF o]
proof
  assume "started sp = []"
  then show ?thesis
    using secrecy.step_in_law [OF sys_step.signal [OF o, of True ts]] d by (simp add: hush_def heard_def)
next
  assume "\<exists>h w. started sp = [WsT w] \<and> ws_start e n = (h, w, n')"
  then show ?thesis using ws_start_discreet [OF d] by (auto simp: heard_def)
qed

section \<open>Every run\<close>

lemma step_discreet: "sys_step e greet s s' \<Longrightarrow> discreet e (heard s) (fst s) \<Longrightarrow> discreet e (heard s') (fst s')"
proof -
  assume st: "sys_step e greet s s'" and d: "discreet e (heard s) (fst s)"
  have fewer: "discreet e (heard s') (fst s')" if "heard s' \<subseteq> heard s"
    using secrecy.step_in_law [OF st, of "heard s"] d that by (simp add: hush_def discreet_fewer)
  show ?thesis using st d fewer
  proof (induction rule: sys_step.induct)
    case (signal io acc s pay n sp n' ts)
    then show ?case using on_signal_discreet by simp
  next
    case (ws_open n h w n' ts)
    then show ?case using ws_start_discreet by (simp add: heard_def)
  next
    case (punch_open now a k n p n' ts)
    then show ?case
      using punch_start_discreet [of e "heard (n, ts)" n now a k] by (cases p) (simp_all add: heard_def)
  next
    case (rtc_open k n r n' ts)
    then show ?case using rtc_start_discreet by (simp add: heard_def rtc_sig_def)
  next
    case (pull_begin k n r n' ts)
    then show ?case by (cases r) (simp_all add: heard_def)
  qed (auto simp: heard_def rtc_sig_def dest!: ws_turn_chan punch_turn_chan rtc_turn_chan)
qed

lemma reachable_discreet: "reachable e greet s \<Longrightarrow> discreet e (heard s) (fst s)"
proof (induction rule: reachable.induct)
  case (start tcp udp ws disco n)
  then show ?case
    by (auto simp: engine_start_def fresh_net_def discreet_def waiting_def heard_def ran_def Let_def split: sum.splits)
next
  case (step s s')
  show ?case by (rule step_discreet [OF step(2,3)])
qed

text \<open>What a turn of a link thread writes to its socket came out of its queue.\<close>

lemma drain_sent: "drain ok k q = (sent, dead, rest) \<Longrightarrow> StrMsg ` set sent \<subseteq> set q"
  by (induction ok k q arbitrary: sent rest rule: drain.induct) (fastforce split: if_splits prod.splits)+

lemma rtc_write_sent: "set (rtc_write found k fs) \<subseteq> set fs"
  by (induction fs arbitrary: k) auto

lemma frames_of_queued: "StrMsg ` set (frames_of q) \<subseteq> set q"
  by (induction q rule: frames_of.induct) auto

lemma ws_turn_sealed:
  assumes "discreet e L n" "wc_chan w \<in> L" "ws_turn e w r ok n = (b, w', sent, n')" "f \<in> set sent"
  shows "frame_ok e (StrMsg f)"
proof -
  obtain b1 w1 n1 where r: "ws_on_read e w r n = (b1, w1, n1)" using prod_cases3 by blast
  have "\<not> b1" using assms(3,4) r by (auto simp: ws_turn_def)
  then obtain dead where f: "ws_flush ok (wc_chan w1) n1 = (sent, dead, n')"
    using assms(3) r by (auto simp: ws_turn_def Let_def split: prod.splits)
  then obtain q rest where q: "hm_get (chans n1) (wc_chan w1) = Some q" "drain ok 0 q = (sent, dead, rest)"
    using assms(4) by (auto simp: ws_flush_def split: option.splits prod.splits)
  have "discreet e L n1" using secrecy.ws_read [OF r] assms(1) by (simp add: hush_def)
  then have "list_all (frame_ok e) q" using discreetD(6) assms(2) q(1) ws_read_chan [OF r] by simp
  moreover have "StrMsg f \<in> set q" using drain_sent [OF q(2)] assms(4) by blast
  ultimately show ?thesis unfolding list_all_iff by blast
qed

lemma rtc_turn_sealed:
  assumes "discreet e L n" "rc_chan r \<in> L" "rtc_turn e r i n = (b, sent, r', n')" "f \<in> set sent"
  shows "frame_ok e (StrMsg f)"
proof -
  obtain q where q: "hm_get (chans n) (rc_chan r) = Some q" "f \<in> set (frames_of q)"
    using assms(3,4) rtc_write_sent
    by (fastforce simp: rtc_turn_def rtc_flush_def Let_def split: if_splits prod.splits option.splits)
  have "StrMsg f \<in> set q" using frames_of_queued q(2) by blast
  with discreetD(6) [OF assms(1,2) q(1)] show ?thesis unfolding list_all_iff by blast
qed

section \<open>Property\<close>


text \<open>The punched link of the sample run, after the user has set a passphrase and sent a message.\<close>

definition sample_sent :: net where
  "sample_sent = net_step sample_env (SendControl ''B'' ''hi'')
     (net_step sample_env (DevLogin ''a'' ''p'') (snd sample_opened))"

lemma sample_sent_queue: "\<exists>f. hm_get (chans sample_sent) 0 = Some [StrMsg f]"
proof -
  obtain k where k: "derive_key sample_env ''p'' ''a'' = Some k" "length k = 32"
    by (simp add: derive_key_def sample_env_def)
  have t: "trim ''a'' = ''a''" "trim ''p'' = ''p''" by (simp_all add: trim_trimmed trimmed_printable printable_def)
  let ?n = "(snd sample_opened)\<lparr>username := Some ''a'', key := Some k\<rparr>"
  have "net_step sample_env (DevLogin ''a'' ''p'') (snd sample_opened) = ?n" by (simp add: dev_login_def t k(1))
  moreover have "hm_get (chans (snd sample_opened)) 0 = Some []"
    by (simp add: sample_opened_def punch_start_def new_channel_def sample_start_def fresh_net_def Let_def
        hm_contains_def mark_live_def world_simps)
  moreover have "proto_for ?n ''B'' = ''WS''"
    using sample_opened_facts(3) by (simp add: proto_for_def best_proto_def hm_contains_def)
  ultimately show ?thesis
    using sample_opened_facts(3) k(2)
    by (simp add: sample_sent_def send_control_def send_payload_def encrypt_def draw_bytes_def send_ws_def chan_send_def
        sample_env_def sample_frame_out_def sample_seal_def Let_def proto_upper advance_def)
qed


end
