(* ===== verification/Authentic.thy ===== *)
theory Authentic
  imports Simulation
begin

text \<open>
  Authenticity in every run: a chat message the UI is shown as readable was opened under a key
  derived from a passphrase, and its sender and text are what the plaintext says. What stands
  in nobody's way is a message that does not open; it is shown flagged.
\<close>

section \<open>The invariant\<close>

definition derived :: "env \<Rightarrow> bytes \<Rightarrow> bool" where
  "derived e k = (\<exists>phrase name. derive_key e phrase name = Some k)"

fun vouched :: "env \<Rightarrow> effect \<Rightarrow> bool" where
  "vouched e (Emit (MessageReceived m)) = (m_ok m \<longrightarrow>
     (\<exists>k env pt. derived e k \<and> decrypt e k env = Some pt \<and>
        plaintext_from_slice e pt = Some \<lparr>pt_from = m_from m, pt_text = m_text m\<rparr>))"
| "vouched e _ = True"

definition honest :: "env \<Rightarrow> net \<Rightarrow> bool" where
  "honest e n = ((\<forall>k. key n = Some k \<longrightarrow> derived e k) \<and> list_all (vouched e) (out n))"

definition trusts :: "env \<Rightarrow> net \<Rightarrow> net \<Rightarrow> bool" where
  "trusts e n n' = (honest e n \<longrightarrow> honest e n')"

lemma not_chat_vouched: "\<not> ok_chat x \<Longrightarrow> vouched e x"
  by (cases x rule: ok_chat.cases) simp_all

lemma honest_grown:
  assumes "honest e n" "key n' = key n" "out n' = out n @ xs" "list_all (vouched e) xs"
  shows "honest e n'"
  using assms by (simp add: honest_def)

lemma traffic_trusts: "traffic n n' \<Longrightarrow> trusts e n n'"
proof -
  assume t: "traffic n n'"
  then obtain xs where xs: "out n' = out n @ xs" "list_all is_io xs" by (auto simp: traffic_def)
  have "vouched e x" if "is_io x" for x using that by (cases x) simp_all
  then have "list_all (vouched e) xs" using xs(2) by (auto simp: list_all_iff)
  then show ?thesis using honest_grown [OF _ _ xs(1)] traffic_fields(2) [OF t] by (simp add: trusts_def)
qed

interpretation trust: step_law "trusts e" e for e
proof unfold_locales
  fix n n' n'' :: net
  show "trusts e n n' \<Longrightarrow> trusts e n' n'' \<Longrightarrow> trusts e n n''" by (simp add: trusts_def)
next
  fix n :: net and eff q
  show "\<not> ok_chat eff \<Longrightarrow> trusts e n (effect eff n)"
    by (simp add: trusts_def honest_def effect_def not_chat_vouched)
  show "trusts e n (snd (http_call e q n))" by (simp add: trusts_def honest_def world_simps)
next
  fix env and n :: net and pt said ip carrier ts
  assume o: "opened e (key n) env = Some pt" "plaintext_from_slice e pt = Some said"
  have "vouched e (Emit (MessageReceived \<lparr>m_from = pt_from said, m_ip = ip, m_protocol = carrier, m_text = pt_text said,
      m_ts = ts, m_ok = True\<rparr>))" if "honest e n"
  proof -
    obtain k where k: "key n = Some k" "decrypt e k env = Some pt" using o(1) by (auto simp: opened_def split: option.splits)
    then have "derived e k" using that by (simp add: honest_def)
    then show ?thesis using k(2) o(2) by (cases said) auto
  qed
  then show "trusts e n (emit (MessageReceived \<lparr>m_from = pt_from said, m_ip = ip, m_protocol = carrier,
      m_text = pt_text said, m_ts = ts, m_ok = True\<rparr>) n)"
    by (simp add: trusts_def honest_def emit_def del: vouched.simps)
next
  fix n :: net and sender node proto body
  show "trusts e n (snd (send_payload e sender node proto body n))" by (rule traffic_trusts [OF send_payload_traffic])
next
  fix n ident reply targets
  show "trusts e n (send_beacon e ident reply targets n)" by (rule traffic_trusts [OF send_beacon_traffic])
next
  fix n and phrase name :: string and x
  show "derive_key e phrase name = Some x \<Longrightarrow> trusts e n (n\<lparr>key := Some x\<rparr>)"
    by (auto simp: trusts_def honest_def derived_def)
next
  fix n :: net and kl tk ad
  show "trusts e n (mark_live e kl tk ad n)" "trusts e n (touch_live e kl n)" "trusts e n (drop_live kl n)"
    by (auto simp: trusts_def honest_def mark_live_def touch_live_def drop_live_def world_simps split: option.split)
qed (auto simp: trusts_def honest_def new_channel_def chan_drop_def chan_send_def Let_def split: option.split)

lemma reachable_honest: "reachable e greet s \<Longrightarrow> honest e (fst s)"
proof (induction rule: reachable.induct)
  case (start tcp udp ws disco n)
  then show ?case by (auto simp: engine_start_def fresh_net_def honest_def Let_def split: sum.splits)
next
  case (step s s')
  then show ?case using trust.step_in_law [OF step(2)] by (simp add: trusts_def)
qed

section \<open>Property\<close>


text \<open>A device logs in and receives a sealed \<open>''hi''\<close> from another with the same passphrase.\<close>

definition sample_ready :: net where
  "sample_ready = net_step sample_env (DevLogin ''a'' ''p'') sample_start"


end
