(* ===== verification/Conn_Ids.thy ===== *)
theory Conn_Ids
  imports Simulation
begin

text \<open>
  The connection ids. The three link modules number their connections from 1, 1000000 and
  2000000; a closing or superseded link recognises its registration by that number alone. As
  long as fewer than a million channels have been made since the start, the numbers of
  the running link threads differ, so the test on the number is a test on the link.
\<close>

section \<open>The counters\<close>

definition in_range :: "net \<Rightarrow> bool" where
  "in_range n =
     (unat (ws_seq n) \<in> {1..1 + next_chan n} \<and> unat (punch_seq n) \<in> {1000000..1000000 + next_chan n} \<and>
      unat (rtc_seq n) \<in> {2000000..2000000 + next_chan n})"

definition counted :: "net \<Rightarrow> net \<Rightarrow> bool" where
  "counted n n' =
     (next_chan n \<le> next_chan n' \<and>
      (next_chan n' < 1000000 \<longrightarrow> in_range n \<longrightarrow>
         in_range n' \<and> ws_seq n \<le> ws_seq n' \<and> punch_seq n \<le> punch_seq n' \<and> rtc_seq n \<le> rtc_seq n'))"

lemma counted_same:
  "\<lbrakk>next_chan n' = next_chan n; ws_seq n' = ws_seq n; punch_seq n' = punch_seq n; rtc_seq n' = rtc_seq n\<rbrakk> \<Longrightarrow> counted n n'"
  by (simp add: counted_def in_range_def)

lemma unat_next: "unat (x :: u64) < 18446744073709551615 \<Longrightarrow> unat (x + 1) = Suc (unat x)"
  by (simp add: unat_word_ariths)

lemma counted_number:
  assumes "new_channel n = (ch, n')"
  shows "counted n n'" "counted n (n'\<lparr>ws_seq := ws_seq n' + 1\<rparr>)" "counted n (n'\<lparr>punch_seq := punch_seq n' + 1\<rparr>)"
    "counted n (n'\<lparr>rtc_seq := rtc_seq n' + 1\<rparr>)"
proof -
  have n': "n' = n\<lparr>next_chan := Suc (next_chan n), chans := hm_insert ch [] (chans n)\<rparr>"
    using assms by (auto simp: new_channel_def Let_def)
  show "counted n n'" "counted n (n'\<lparr>ws_seq := ws_seq n' + 1\<rparr>)" "counted n (n'\<lparr>punch_seq := punch_seq n' + 1\<rparr>)"
    "counted n (n'\<lparr>rtc_seq := rtc_seq n' + 1\<rparr>)"
    by (auto simp: n' counted_def in_range_def word_le_nat_alt unat_next)
qed

interpretation numbers: step_law counted e for e
proof unfold_locales
  fix n n' n'' :: net
  show "counted n n' \<Longrightarrow> counted n' n'' \<Longrightarrow> counted n n''" by (auto simp: counted_def)
next
  fix n n' :: net and ch
  assume c: "new_channel n = (ch, n')"
  show "counted n n'" "counted n (n'\<lparr>ws_seq := ws_seq n' + 1\<rparr>)" "counted n (n'\<lparr>punch_seq := punch_seq n' + 1\<rparr>)"
    "counted n (n'\<lparr>rtc_seq := rtc_seq n' + 1\<rparr>)"
    by (fact counted_number [OF c])+
  fix kn
  show "counted n (n'\<lparr>clip_pending := hm_insert kn ch (clip_pending n')\<rparr>)"
    "counted n (n'\<lparr>punch_waiters := hm_insert kn ch (punch_waiters n')\<rparr>)"
    "counted n (n'\<lparr>rtc_waiters := hm_insert kn ch (rtc_waiters n')\<rparr>)"
    using counted_number(1) [OF c] by (simp_all add: counted_def in_range_def)
next
  fix n sender node proto body
  show "counted n (snd (send_payload e sender node proto body n))"
    using traffic_fields [OF send_payload_traffic] by (intro counted_same)
next
  fix n ident reply targets
  show "counted n (send_beacon e ident reply targets n)"
    using traffic_fields [OF send_beacon_traffic] by (intro counted_same)
qed (auto intro!: counted_same simp: mark_live_def touch_live_def drop_live_def world_simps chan_send_def
    chan_drop_def effect_def emit_def split: option.split)

section \<open>The numbers of the threads\<close>

fun link_id :: "thread \<Rightarrow> u64 option" where
  "link_id (Caller c) = None"
| "link_id t = Some (fst (thread_sig t))"

fun id_ok :: "net \<Rightarrow> thread \<Rightarrow> bool" where
  "id_ok n (WsT w) = (1 \<le> unat (wc_id w) \<and> wc_id w < ws_seq n)"
| "id_ok n (WsGone w g) = (1 \<le> unat (wc_id w) \<and> wc_id w < ws_seq n)"
| "id_ok n (PunchT p) = (1000000 \<le> unat (pc_id p) \<and> pc_id p < punch_seq n)"
| "id_ok n (RtcT r) = (2000000 \<le> unat (rc_id r) \<and> rc_id r < rtc_seq n)"
| "id_ok n (Caller c) = True"

definition link_ids :: "thread list \<Rightarrow> u64 list" where
  "link_ids ts = List.map_filter link_id ts"

lemma link_ids_simps [simp]:
  "link_ids [] = []" "link_ids (t # ts) = (case link_id t of None \<Rightarrow> [] | Some i \<Rightarrow> [i]) @ link_ids ts"
  "link_ids (pre @ post) = link_ids pre @ link_ids post"
  by (simp_all add: link_ids_def List.map_filter_def split: option.split)

lemma link_id_eqs:
  "link_id (Caller c) = None" "link_id (WsT w) = Some (wc_id w)" "link_id (WsGone w g) = Some (wc_id w)" "link_id (PunchT p) = Some (pc_id p)"
  "link_id (RtcT r) = Some (rc_id r)"
  by (simp_all add: rtc_sig_def)

declare link_id.simps [simp del]
declare link_id_eqs [simp]

definition numbered :: "sys \<Rightarrow> bool" where
  "numbered s = (in_range (fst s) \<and> list_all (id_ok (fst s)) (snd s) \<and> distinct (link_ids (snd s)))"

lemma id_ok_counted: "counted n n' \<Longrightarrow> next_chan n' < 1000000 \<Longrightarrow> in_range n \<Longrightarrow> id_ok n t \<Longrightarrow> id_ok n' t"
  by (cases t) (auto simp: counted_def)

text \<open>A counter's value is no running link's number.\<close>

lemma fresh_id:
  assumes "numbered (n, ts)" "next_chan n < 999999" "i \<in> {ws_seq n, punch_seq n, rtc_seq n}"
  shows "i \<notin> set (link_ids ts)"
proof
  assume "i \<in> set (link_ids ts)"
  then obtain t where t: "t \<in> set ts" "link_id t = Some i"
    by (auto simp: link_ids_def List.map_filter_def)
  have "id_ok n t" "in_range n" using assms(1) t(1) by (auto simp: numbered_def list_all_iff)
  then show False
    using t(2) assms(2,3) by (cases t) (auto simp: in_range_def word_less_nat_alt rtc_sig_def)
qed

lemma new_thread:
  assumes "numbered (n, ts)" "counted n n'" "next_chan n' < 1000000" "next_chan n' = Suc (next_chan n)"
    "link_id t = Some i" "i \<in> {ws_seq n, punch_seq n, rtc_seq n}" "id_ok n' t"
  shows "numbered (n', t # ts)"
proof -
  have r: "in_range n" using assms(1) by (simp add: numbered_def)
  have "list_all (id_ok n') ts"
    using assms(1) id_ok_counted [OF assms(2,3) r] by (auto simp: numbered_def list_all_iff)
  moreover have "in_range n'" using assms(2,3) r by (simp add: counted_def)
  ultimately show ?thesis
    using assms(1,5,7) fresh_id [OF assms(1) _ assms(6)] assms(3,4) by (simp add: numbered_def)
qed

lemma ws_start_numbered:
  assumes "numbered (n, ts)" "ws_start e n = (h, w, n')" "next_chan n' < 1000000"
  shows "numbered (n', WsT w # ts)"
proof (rule new_thread [OF assms(1) numbers.ws_thread(1) [OF assms(2)] assms(3)])
  have w: "wc_id w = ws_seq n" "ws_seq n' = ws_seq n + 1" and c: "next_chan n' = Suc (next_chan n)"
    using assms(2) by (auto simp: ws_start_def new_channel_def Let_def)
  show "next_chan n' = Suc (next_chan n)" "link_id (WsT w) = Some (ws_seq n)" "ws_seq n \<in> {ws_seq n, punch_seq n, rtc_seq n}"
    using w c by simp_all
  show "id_ok n' (WsT w)"
    using assms(1,3) c by (auto simp: w numbered_def in_range_def word_less_nat_alt unat_next)
qed

lemma rtc_start_numbered:
  assumes "numbered (n, ts)" "rtc_start k n = (r, n')" "next_chan n' < 1000000"
  shows "numbered (n', RtcT r # ts)"
proof (rule new_thread [OF assms(1) numbers.rtc_thread(1) [OF assms(2)] assms(3)])
  have r: "rc_id r = rtc_seq n" "rtc_seq n' = rtc_seq n + 1" and c: "next_chan n' = Suc (next_chan n)"
    using assms(2) by (auto simp: rtc_start_def new_channel_def Let_def)
  show "next_chan n' = Suc (next_chan n)" "link_id (RtcT r) = Some (rtc_seq n)" "rtc_seq n \<in> {ws_seq n, punch_seq n, rtc_seq n}"
    using r c by simp_all
  show "id_ok n' (RtcT r)"
    using assms(1,3) c by (auto simp: r numbered_def in_range_def word_less_nat_alt unat_next)
qed

lemma punch_start_numbered:
  assumes "numbered (n, ts)" "punch_start e now a k n = (Some p, n')" "next_chan n' < 1000000"
  shows "numbered (n', PunchT p # ts)"
proof (rule new_thread [OF assms(1) numbers.punch_thread(1) [OF assms(2)] assms(3)])
  have p: "pc_id p = punch_seq n" "punch_seq n' = punch_seq n + 1" and c: "next_chan n' = Suc (next_chan n)"
    using assms(2) by (auto simp: punch_start_def new_channel_def mark_live_def world_simps Let_def
        split: if_splits option.splits)
  show "next_chan n' = Suc (next_chan n)" "link_id (PunchT p) = Some (punch_seq n)"
    "punch_seq n \<in> {ws_seq n, punch_seq n, rtc_seq n}"
    using p c by simp_all
  show "id_ok n' (PunchT p)"
    using assms(1,3) c by (auto simp: p numbered_def in_range_def word_less_nat_alt unat_next)
qed

section \<open>Every run\<close>

lemma kept:
  assumes "numbered (n, ts)" "counted n n'" "next_chan n' < 1000000" "list_all (id_ok n) ts'" "distinct (link_ids ts')"
  shows "numbered (n', ts')"
proof -
  have r: "in_range n" using assms(1) by (simp add: numbered_def)
  have "list_all (id_ok n') ts'"
    using assms(4) id_ok_counted [OF assms(2,3) r] by (auto simp: list_all_iff)
  then show ?thesis using assms(2,3,5) r by (simp add: numbered_def counted_def)
qed

lemma on_signal_numbered:
  assumes s: "numbered (n, ts)" and o: "on_signal e io acc s pay n = (sp, n')" and b: "next_chan n' < 1000000"
  shows "numbered (n', started sp @ ts)"
  using on_signal_starts [OF o]
proof
  assume "started sp = []"
  then show ?thesis
    using kept [OF s numbers.signalled_in [OF o] b, of ts] s by (simp add: numbered_def)
next
  assume "\<exists>h w. started sp = [WsT w] \<and> ws_start e n = (h, w, n')"
  then show ?thesis using ws_start_numbered [OF s _ b] by auto
qed

lemma sys_step_numbered: "sys_step e greet s s' \<Longrightarrow> numbered s \<Longrightarrow> next_chan (fst s') < 1000000 \<Longrightarrow> numbered s'"
proof -
  assume st: "sys_step e greet s s'" and s: "numbered s" and b: "next_chan (fst s') < 1000000"
  have keep: "numbered s'" if "list_all (id_ok (fst s)) (snd s')" "distinct (link_ids (snd s'))"
    using kept [OF _ numbers.step_in_law [OF st] b that, of "snd s"] s by simp
  show ?thesis using st s b keep
  proof (induction rule: sys_step.induct)
    case (signal io acc s pay n sp n' ts)
    then show ?case using on_signal_numbered by simp
  next
    case (ws_open n h w n' ts)
    then show ?case using ws_start_numbered by simp
  next
    case (punch_open now a k n p n' ts)
    show ?case
    proof (cases p)
      case None
      then show ?thesis using punch_open(2,4) by (simp add: numbered_def)
    next
      case (Some q)
      then show ?thesis using punch_start_numbered [of n ts e now a k q n'] punch_open(1-3) by simp
    qed
  next
    case (rtc_open k n r n' ts)
    then show ?case using rtc_start_numbered by simp
  next
    case (pull_begin k n r n' ts)
    then show ?case by (cases r) (simp_all add: numbered_def)
  qed (auto simp: numbered_def dest!: ws_turn_chan punch_turn_chan rtc_turn_chan)
qed

lemma reachable_numbered: "reachable e greet s \<Longrightarrow> next_chan (fst s) < 1000000 \<Longrightarrow> numbered s"
proof (induction rule: reachable.induct)
  case (start tcp udp ws disco n)
  then show ?case
    by (auto simp: engine_start_def fresh_net_def numbered_def in_range_def Let_def split: sum.splits)
next
  case (step s s')
  have "next_chan (fst s) \<le> next_chan (fst s')" using numbers.step_in_law [OF step(2)] by (simp add: counted_def)
  then show ?case using step(3,4) sys_step_numbered [OF step(2)] by simp
qed

section \<open>Closing a link\<close>

text \<open>What each thread does to the tables when it ends.\<close>

fun end_thread :: "thread \<Rightarrow> net \<Rightarrow> net" where
  "end_thread (WsT w) n = ws_close w n"
| "end_thread (WsGone w g) n = ws_finish w g n"
| "end_thread (PunchT p) n = punch_close p n"
| "end_thread (RtcT r) n = rtc_close r n"
| "end_thread (Caller c) n = chan_drop c n"

definition chan_of :: "thread \<Rightarrow> nat" where
  "chan_of t = fst (snd (thread_sig t))"

lemma one_thread:
  "\<lbrakk>distinct (link_ids ts); t \<in> set ts; t' \<in> set ts; link_id t = Some i; link_id t' = Some i\<rbrakk> \<Longrightarrow> t = t'"
proof (induction ts)
  case (Cons x ts)
  have mem: "i \<in> set (link_ids ts)" if "y \<in> set ts" "link_id y = Some i" for y
    using that by (force simp: link_ids_def List.map_filter_def)
  then show ?case using Cons by (auto split: option.splits)
qed simp

lemma serves_link_id: "thread_sig t = (i, c, Some k) \<Longrightarrow> link_id t = Some i"
  by (cases t) (auto simp: rtc_sig_def)

lemma id_test:
  assumes "owned (n, ts)" "distinct (link_ids ts)" "t \<in> set ts" "thread_sig t = (i, c, Some k)"
  shows "owns (ws_conns n) k i \<longleftrightarrow> hm_get (ws_conns n) k = Some (i, c)"
proof
  assume "owns (ws_conns n) k i"
  then obtain d where d: "hm_get (ws_conns n) k = Some (i, d)" by (auto simp: owns_def)
  then obtain t' where t': "t' \<in> set ts" "thread_sig t' = (i, d, Some k)"
    using links_ok_entry [of n "map thread_sig ts" k i d] assms(1) by (auto simp: owned_def)
  have "t = t'" using one_thread assms(2,3) t'(1) serves_link_id assms(4) t'(2) by blast
  then show "hm_get (ws_conns n) k = Some (i, c)" using d t'(2) assms(4) by simp
qed (simp add: owns_def)

lemma own_entry:
  assumes "owned (n, ts)" "t \<in> set ts" "thread_sig t = (i, c, p)" "hm_get (ws_conns n) k = Some (j, c)"
  shows "p = Some k \<and> j = i"
proof -
  have ok: "links_ok n (map thread_sig ts)" using assms(1) by (simp add: owned_def)
  then have "distinct (map (\<lambda>x. fst (snd x)) (map thread_sig ts))" unfolding links_ok_def by blast
  then have inj: "inj_on (\<lambda>x. fst (snd x)) (set (map thread_sig ts))" using distinct_map by blast
  have "(i, c, p) \<in> set (map thread_sig ts)" using assms(2,3) by force
  from inj_onD [OF inj _ this links_ok_entry [OF ok assms(4)]] show ?thesis by simp
qed

lemma unregister_own:
  assumes "owned (n, ts)" "distinct (link_ids ts)" "t \<in> set ts" "thread_sig t = (i, c, p)"
  shows "hm_get (ws_conns (unregister p i n)) k =
    (case hm_get (ws_conns n) k of Some (j, d) \<Rightarrow> if d = c then None else Some (j, d) | None \<Rightarrow> None)"
proof (cases "hm_get (ws_conns n) k")
  case None
  then show ?thesis by (auto simp: unregister_def split: option.split)
next
  case (Some x)
  obtain j d where x: "x = (j, d)" by fastforce
  show ?thesis
  proof (cases "d = c")
    case True
    then have "p = Some k" "j = i" using own_entry [OF assms(1,3,4)] Some x by auto
    then show ?thesis using Some x True by (simp add: unregister_def)
  next
    case False
    then have "p = Some k \<Longrightarrow> \<not> owns (ws_conns n) k i"
      using id_test [OF assms(1-3)] assms(4) Some x by simp
    then show ?thesis using Some x False by (auto simp: unregister_def owns_def split: option.split)
  qed
qed

lemma drop_live_conns [simp]: "ws_conns (drop_live k n) = ws_conns n"
  by (simp add: drop_live_def world_simps split: option.split)

lemma chan_drop_conns [simp]: "ws_conns (chan_drop c n) = ws_conns n"
  by (simp add: chan_drop_def)

lemma end_thread_conns:
  "ws_conns (end_thread t n) = ws_conns (case t of WsT w \<Rightarrow> unregister (wc_peer w) (wc_id w) n
     | PunchT p \<Rightarrow> unregister (Some (pc_node p)) (pc_id p) n
     | RtcT r \<Rightarrow> if rc_registered r then unregister (Some (rc_node r)) (rc_id r) n else n | _ \<Rightarrow> n)"
  by (cases t) (simp_all add: ws_close_def ws_unregister_def ws_finish_def punch_close_def rtc_close_def
      rtc_cleanup_def unregister_def owns_def emit_def Let_def split: option.split)

section \<open>Property\<close>



end
