(* ===== verification/Silence.thy ===== *)
theory Silence
  imports Conn_Ids
begin

text \<open>
  What becomes of a punched or WebRTC link whose peer has gone silent. The heartbeat takes the peer off
  the live registry, the driver notices at the end of its next turn, and the clean-up frees
  everything the link held: three parts of the program and one run.
\<close>

section \<open>A turn after the eviction\<close>

text \<open>Nothing came, or one of the keepalive probes.\<close>

definition only_probe :: "(bytes \<times> ipv4 \<times> u16) option \<Rightarrow> bool" where
  "only_probe r = (case r of None \<Rightarrow> True | Some (d, _) \<Rightarrow> take 65535 d \<in> {PUNCH_PING, PUNCH_PONG})"

lemma touch_live_absent: "hm_get (p2p_conns n) k = None \<Longrightarrow> touch_live e k n = n"
  by (simp add: touch_live_def)

lemma punch_flush_keeps:
  assumes "punch_flush io p n = (sent, dead, p', n')"
  shows "p2p_conns n' = p2p_conns n" "punch_sig p' = punch_sig p"
  using assms by (auto simp: punch_flush_def Let_def split: option.splits prod.splits)

lemma punch_keepalive_keeps: "punch_keepalive i p = (ka, p') \<Longrightarrow> punch_sig p' = punch_sig p"
  by (auto simp: punch_keepalive_def split: if_splits)

lemma evicted_turn_ends:
  assumes "hm_get (p2p_conns n) (pc_node p) = None" "only_probe (pt_dgram i)"
  shows "\<exists>sent p' n'. punch_turn e p i n = Some (True, sent, p', n') \<and> hm_get (p2p_conns n') (pc_node p) = None"
proof -
  obtain sent dead p1 n1 where f: "punch_flush (pt_io i) p n = (sent, dead, p1, n1)" by (metis prod.collapse)
  obtain ka p2 where k: "punch_keepalive i p1 = (ka, p2)" by fastforce
  have gone: "hm_get (p2p_conns n1) (pc_node p2) = None" "pc_node p2 = pc_node p"
    using assms(1) punch_flush_keeps [OF f] punch_keepalive_keeps [OF k] by simp_all
  have "\<exists>replies p3. punch_on_dgram e p2 (pt_dgram i) n1 = Some (replies, p3, n1) \<and> pc_node p3 = pc_node p"
    using assms(2) gone
    by (auto simp: punch_on_dgram_def only_probe_def Let_def touch_live_absent split: option.splits)
  then obtain replies p3 where d: "punch_on_dgram e p2 (pt_dgram i) n1 = Some (replies, p3, n1)" "pc_node p3 = pc_node p"
    by blast
  show ?thesis
    using gone d(2) punch_flush_keeps [OF f] assms(1)
    by (auto simp: punch_turn_def f k d(1) Let_def link_current_def hm_contains_def)
qed

text \<open>The WebRTC engine hands out nothing from the peer: datagrams to send and other events only.\<close>

fun no_data :: "rtc_output \<Rightarrow> bool" where
  "no_data (ChannelData d) = False"
| "no_data _ = True"

lemma quiet_pump:
  "\<lbrakk>rtc_pump e r xs n = (r', n'); list_all no_data xs; rc_registered r\<rbrakk> \<Longrightarrow> n' = n \<and> rtc_sig r' = rtc_sig r"
proof (induction xs arbitrary: r)
  case (Cons x xs)
  have "\<exists>r1. rtc_on_output e r x n = (r1, n) \<and> rtc_sig r1 = rtc_sig r \<and> rc_registered r1"
    using Cons.prems(2,3) by (cases x) (simp_all add: rtc_sig_def)
  then show ?case using Cons by auto
qed simp

lemma evicted_rtc_turn_ends:
  assumes "hm_get (p2p_conns n) (rc_node r) = None" "rc_registered r" "list_all no_data (ri_outputs i)"
  shows "\<exists>sent r' n'. rtc_turn e r i n = (True, sent, r', n') \<and> hm_get (p2p_conns n') (rc_node r) = None \<and>
    rtc_sig r' = rtc_sig r"
proof (cases "ri_alive i")
  case True
  obtain sent n1 where f: "rtc_flush (ri_channel i) r n = (sent, n1)" by fastforce
  then have p: "p2p_conns n1 = p2p_conns n" by (auto simp: rtc_flush_def split: option.splits)
  obtain r2 n2 where d: "rtc_pump e r (ri_outputs i) n1 = (r2, n2)" by fastforce
  have q: "n2 = n1" "rtc_sig r2 = rtc_sig r" using quiet_pump [OF d assms(3,2)] by simp_all
  then have "rc_registered r2" "rc_node r2 = rc_node r" using assms(2) by (auto simp: rtc_sig_def split: if_splits)
  then show ?thesis
    using True assms(1) p q by (auto simp: rtc_turn_def f d Let_def link_current_def hm_contains_def)
qed (use assms in \<open>simp add: rtc_turn_def\<close>)

text \<open>The state after the end of a thread that served \<open>k\<close> and read \<open>ch\<close>: nothing is left of it.\<close>

definition freed :: "env \<Rightarrow> sys \<Rightarrow> string \<Rightarrow> nat \<Rightarrow> bool" where
  "freed e s k ch = (reachable e True s \<and> hm_get (p2p_conns (fst s)) k = None \<and>
     hm_get (chans (fst s)) ch = None \<and> (\<forall>j i. hm_get (ws_conns (fst s)) j \<noteq> Some (i, ch)))"

lemma freedI:
  assumes "owned (n, pre @ t # post)" "thread_sig t = (i, ch, Some k)" "reachable e True (m, pre @ post)"
    "hm_get (p2p_conns m) k = None" "hm_get (chans m) ch = None"
  shows "freed e (m, pre @ post) k ch"
proof -
  have "hm_get (ws_conns m) j \<noteq> Some (l, ch)" for j l
  proof
    assume "hm_get (ws_conns m) j = Some (l, ch)"
    then have "(l, ch, Some j) \<in> set (map thread_sig pre @ map thread_sig post)"
      using links_ok_entry reachable_owned [OF assms(3)] by (fastforce simp: owned_def)
    moreover have "links_ok n (map thread_sig pre @ (i, ch, Some k) # map thread_sig post)"
      using assms(1,2) by (simp add: owned_def)
    ultimately show False using links_ok_other by fastforce
  qed
  then show ?thesis using assms(3-5) by (simp add: freed_def)
qed

section \<open>Property\<close>

text \<open>C11: a silent link is closed. In any reachable state in which the peer of a running punched or
  WebRTC link was last heard of more than 15 seconds ago, after a heartbeat the link's next
  turn is its last, if it brings nothing from the peer but keepalive probes (punched) or
  engine events (WebRTC): the turn completes, and after the clean-up the peer is not shown
  live, no registered sender leads to the link, its channel is gone, and the other threads run
  on.\<close>

theorem silent_link_closes:
  assumes "reachable e True (n, pre @ t # post)" "thread_sig t = (cid, ch, Some k)"
    and "hm_get (p2p_conns n) k = Some c" "l_kind c \<noteq> Ws"
    and "unat (l_last_seen c) + 15 < unat (now_secs e (tick n))"
  shows "(\<forall>p i. t = PunchT p \<and> only_probe (pt_dgram i) \<longrightarrow>
      (\<exists>sent p' n'. punch_turn e p i (heartbeat e n) = Some (True, sent, p', n') \<and>
        freed e (punch_close p' n', pre @ post) k ch)) \<and>
    (\<forall>r i. t = RtcT r \<and> list_all no_data (ri_outputs i) \<longrightarrow>
      (\<exists>sent r' n'. rtc_turn e r i (heartbeat e n) = (True, sent, r', n') \<and>
        freed e (rtc_close r' n', pre @ post) k ch))"
proof (intro conjI allI impI)
  have beat: "reachable e True (heartbeat e n, pre @ t # post)"
    using reachable.step [OF assms(1) sys_step.call [of e True n _ HeartbeatTurn]] by simp
  note own = reachable_owned [OF beat]
  have "hm_ok (p2p_conns n)" using reachable_dots [OF assms(1)] by (simp add: dots_ok_def)
  then have gone: "hm_get (p2p_conns (heartbeat e n)) k = None"
    using heartbeat_get assms(3-5) by simp
  show "\<exists>sent p' n'. punch_turn e p i (heartbeat e n) = Some (True, sent, p', n') \<and>
      freed e (punch_close p' n', pre @ post) k ch" if "t = PunchT p \<and> only_probe (pt_dgram i)" for p i
  proof -
    have t: "t = PunchT p" "only_probe (pt_dgram i)" "pc_node p = k" "pc_chan p = ch" using that assms(2) by auto
    obtain sent p' n' where *: "punch_turn e p i (heartbeat e n) = Some (True, sent, p', n')"
      "hm_get (p2p_conns n') k = None"
      using evicted_turn_ends [of "heartbeat e n" p i e] gone t by auto
    have p': "punch_sig p' = punch_sig p" using punch_turn_guarded [OF *(1)] by simp
    have r: "reachable e True (punch_close p' n', pre @ post)"
      by (rule reachable.step [OF beat [unfolded t(1)] sys_step.punch_end [OF *(1)]])
    have "freed e (punch_close p' n', pre @ post) k ch"
      by (rule freedI [OF own assms(2) r])
        (use *(2) p' t in \<open>simp_all add: punch_close_def Let_def chan_drop_def drop_live_get\<close>)
    with *(1) show ?thesis by blast
  qed
  show "\<exists>sent r' n'. rtc_turn e r i (heartbeat e n) = (True, sent, r', n') \<and>
      freed e (rtc_close r' n', pre @ post) k ch" if "t = RtcT r \<and> list_all no_data (ri_outputs i)" for r i
  proof -
    have t: "t = RtcT r" "list_all no_data (ri_outputs i)" "rc_registered r" "rc_node r = k" "rc_chan r = ch"
      using that assms(2) by (auto simp: rtc_sig_def split: if_splits)
    obtain sent r' n' where *: "rtc_turn e r i (heartbeat e n) = (True, sent, r', n')"
      "hm_get (p2p_conns n') k = None" "rtc_sig r' = rtc_sig r"
      using evicted_rtc_turn_ends [of "heartbeat e n" r i e] gone t by auto
    have r: "reachable e True (rtc_close r' n', pre @ post)"
      by (rule reachable.step [OF beat [unfolded t(1)] sys_step.rtc_end [OF *(1)]])
    have "rc_registered r'" "rc_node r' = k" "rc_chan r' = ch"
      using *(3) t(3-5) by (auto simp: rtc_sig_def split: if_splits)
    then have "freed e (rtc_close r' n', pre @ post) k ch"
      by (intro freedI [OF own assms(2) r])
        (use *(2) in \<open>simp_all add: rtc_close_def rtc_cleanup_def Let_def chan_drop_def drop_live_get\<close>)
    with *(1) show ?thesis by blast
  qed
qed

section \<open>A probe that brings data\<close>

text \<open>The other side of the condition on the turn: a ping message that arrives between the eviction and the
  end of the turn puts the peer back on the registry, as a UDP link; the thread then runs on.\<close>

theorem ping_revives_as_udp:
  assumes "msg_str msg ''from'' = k" "k \<noteq> []" "hm_get (p2p_conns n) k = None" "owns (ws_conns n) k cid"
  shows "link_current k cid (p2p_ping_handle e msg n) \<and>
    map_option l_kind (hm_get (p2p_conns (p2p_ping_handle e msg n)) k) = Some Udp"
proof -
  let ?m = "mark_live e k Udp None n"
  have m: "ws_conns ?m = ws_conns n" "map_option l_kind (hm_get (p2p_conns ?m) k) = Some Udp"
    using assms(3) by (simp_all add: mark_live_def world_simps)
  have "ws_conns (p2p_ping_handle e msg n) = ws_conns ?m \<and> p2p_conns (p2p_ping_handle e msg n) = p2p_conns ?m"
    using assms(1,2) traffic_fields(4,5) [OF send_control_to_traffic] by (simp add: p2p_ping_handle_def Let_def)
  then show ?thesis
    using m assms(4) by (auto simp: link_current_def owns_def hm_contains_def)
qed

section \<open>A run\<close>

text \<open>The punched link of the sample run; its peer is not heard of while the clock advances.\<close>

lemma idle_turns: "reachable e greet (n, ts) \<Longrightarrow> reachable e greet ((net_step e NetworkTurn ^^ m) n, ts)"
proof (induction m)
  case (Suc m)
  then show ?case using reachable.step [OF _ sys_step.call [of e greet _ ts NetworkTurn]] by simp
qed simp

lemma idle_turns_advance:
  "i_ip (identity n) = ''10.0.0.2'' \<Longrightarrow> (net_step sample_env NetworkTurn ^^ m) n = n\<lparr>tick := tick n + m\<rparr>"
  by (induction m) (simp_all add: ip_watch_def sample_env_def advance_def Let_def)

theorem silent_link_closes_witness:
  "\<exists>sent p' n'. punch_turn sample_env sample_driver
      \<lparr>pt_io = \<lambda>_ _. None, pt_elapsed = 0, pt_now = 0, pt_dgram = Some (PUNCH_PING, Ipv4 10 0 0 3, 9)\<rparr>
      (heartbeat sample_env ((net_step sample_env NetworkTurn ^^ 20) (snd sample_opened))) = Some (True, sent, p', n') \<and>
    reachable sample_env True (punch_close p' n', [])"
proof -
  let ?n = "(net_step sample_env NetworkTurn ^^ 20) (snd sample_opened)"
  have r: "reachable sample_env True (?n, [] @ PunchT sample_driver # [])"
    using idle_turns [OF sample_linked] by simp
  have "i_ip (identity (snd sample_opened)) = ''10.0.0.2''" and t: "tick (snd sample_opened) = 3"
    by (simp_all add: sample_opened_def punch_start_def new_channel_def sample_start_def fresh_net_def Let_def
        hm_contains_def mark_live_def world_simps) (simp add: sample_env_def)
  then have n: "?n = (snd sample_opened)\<lparr>tick := 23\<rparr>" by (simp add: idle_turns_advance)
  have "only_probe (Some (PUNCH_PING, Ipv4 10 0 0 3, 9))"
    using ping_pong_lengths by (simp add: only_probe_def)
  then show ?thesis
    using silent_link_closes [OF r, of 1000000 0 "''B''", THEN conjunct1, THEN spec, THEN spec, of _ sample_driver
        "\<lparr>pt_io = \<lambda>_ _. None, pt_elapsed = 0, pt_now = 0, pt_dgram = Some (PUNCH_PING, Ipv4 10 0 0 3, 9)\<rparr>"]
      sample_opened_facts(2)
    by (simp add: n sample_driver_def freed_def) (simp add: sample_env_def; fastforce)
qed

end
