(* ===== verification/Queues.thy ===== *)
theory Queues
  imports Secrecy
begin

text \<open>
  The \<open>mpsc\<close> channels over whole runs. Every step, of whichever thread, takes messages from the
  front of a queue and puts messages at its end, and a channel that was dropped does not come
  back. So what a link's thread reads is what was queued for it, in that order, however the
  other threads interleave.
\<close>

section \<open>Queues in time\<close>

fun later :: "chan_msg list option \<Rightarrow> chan_msg list option \<Rightarrow> bool" where
  "later None x = (x = None)"
| "later (Some q) None = True"
| "later (Some q) (Some q') = (\<exists>k new. q' = drop k q @ new)"

lemma later_refl [simp, intro]: "later x x"
  by (cases x) (auto intro: exI [of _ 0])

lemma later_trans: "later x y \<Longrightarrow> later y z \<Longrightarrow> later x z"
proof (induction x y rule: later.induct)
  case (3 q q')
  then obtain k new where q': "q' = drop k q @ new" by auto
  show ?case
  proof (cases z)
    case (Some q'')
    then obtain k' new' where "q'' = drop k' q' @ new'" using 3(2) by auto
    then have "q'' = drop (k + k') q @ (drop (k' - (length q - k)) new @ new')" by (simp add: q' add.commute)
    then show ?thesis using Some by (auto simp del: append_assoc)
  qed simp
qed auto

lemma later_append [simp]: "later (Some q) (Some (q @ new))"
  by (auto intro: exI [of _ 0])

lemma later_suffix: "suffix q' q \<Longrightarrow> later (Some q) (Some q')"
  by (auto simp: suffix_def intro!: exI [of _ "length q - length q'"])

definition numbered_chans :: "net \<Rightarrow> bool" where
  "numbered_chans n = (\<forall>c q. hm_get (chans n) c = Some q \<longrightarrow> c < next_chan n)"

definition flows :: "net \<Rightarrow> net \<Rightarrow> bool" where
  "flows n n' =
     (numbered_chans n \<longrightarrow> numbered_chans n' \<and> next_chan n \<le> next_chan n' \<and>
        (\<forall>c < next_chan n. later (hm_get (chans n) c) (hm_get (chans n') c)))"

lemma flows_same: "\<lbrakk>chans n' = chans n; next_chan n' = next_chan n\<rbrakk> \<Longrightarrow> flows n n'"
  by (simp add: flows_def numbered_chans_def)

lemma flows_at:
  assumes "\<And>d. d \<noteq> c \<Longrightarrow> hm_get (chans n') d = hm_get (chans n) d" "later (hm_get (chans n) c) (hm_get (chans n') c)"
    "next_chan n' = next_chan n"
  shows "flows n n'"
  unfolding flows_def numbered_chans_def
proof (intro impI conjI allI)
  fix d q
  assume n: "\<forall>c q. hm_get (chans n) c = Some q \<longrightarrow> c < next_chan n" and d: "hm_get (chans n') d = Some q"
  then have "hm_get (chans n) d \<noteq> None" using assms(1,2) by (cases "d = c"; cases "hm_get (chans n) c") auto
  then show "d < next_chan n'" using n assms(3) by auto
next
  show "later (hm_get (chans n) d) (hm_get (chans n') d)" for d
    using assms(1,2) by (cases "d = c") auto
qed (simp add: assms(3))

lemma flows_send: "flows n (snd (chan_send c msg n))"
  by (rule flows_at [of c]) (auto simp: chan_send_def simp del: later.simps split: option.split)

lemma flows_new:
  assumes "new_channel n = (c, n')" "chans n'' = chans n'" "next_chan n'' = next_chan n'"
  shows "flows n n''"
  using assms by (auto simp: flows_def numbered_chans_def new_channel_def Let_def less_SucI split: if_splits)

lemma flows_trans: "flows n n' \<Longrightarrow> flows n' n'' \<Longrightarrow> flows n n''"
  unfolding flows_def using later_trans by fastforce

lemma flows_sealed:
  assumes "sealed_growth e t n n'" "next_chan n' = next_chan n"
  shows "flows n n'"
proof -
  have grown: "\<exists>fs. hm_get (chans n') c = map_option (\<lambda>q. q @ map StrMsg fs) (hm_get (chans n) c)" for c
    using assms(1) unfolding sealed_growth_def by blast
  have "later (hm_get (chans n) c) (hm_get (chans n') c)" for c
    using grown [of c] by (cases "hm_get (chans n) c") (auto simp del: later.simps(3))
  moreover have "\<exists>q'. hm_get (chans n) c = Some q'" if "hm_get (chans n') c = Some q" for c q
    using grown [of c] that by (cases "hm_get (chans n) c") auto
  ultimately show ?thesis using assms(2) unfolding flows_def numbered_chans_def by fastforce
qed

interpretation queues: step_law flows e for e
proof unfold_locales
  fix n n' n'' :: net
  show "flows n n' \<Longrightarrow> flows n' n'' \<Longrightarrow> flows n n''" by (rule flows_trans)
next
  fix n sender node proto body
  show "flows n (snd (send_payload e sender node proto body n))"
    by (rule flows_sealed [OF send_payload_sealed_growth]) (rule traffic_fields [OF send_payload_traffic])
next
  fix n ident reply targets
  show "flows n (send_beacon e ident reply targets n)"
    by (rule flows_same) (simp_all add: send_beacon_chans traffic_fields [OF send_beacon_traffic])
next
  fix n ch n' kn
  assume c: "new_channel n = (ch, n')"
  show "flows n n'" "flows n (n'\<lparr>ws_seq := ws_seq n' + 1\<rparr>)" "flows n (n'\<lparr>punch_seq := punch_seq n' + 1\<rparr>)"
    "flows n (n'\<lparr>rtc_seq := rtc_seq n' + 1\<rparr>)" "flows n (n'\<lparr>clip_pending := hm_insert kn ch (clip_pending n')\<rparr>)"
    "flows n (n'\<lparr>punch_waiters := hm_insert kn ch (punch_waiters n')\<rparr>)"
    "flows n (n'\<lparr>rtc_waiters := hm_insert kn ch (rtc_waiters n')\<rparr>)"
    by (rule flows_new [OF c]; simp)+
next
  fix n :: net and ka tx msg
  show "flows n (snd (chan_send tx msg (n\<lparr>clip_pending := hm_remove ka (clip_pending n)\<rparr>)))"
    "flows n (snd (chan_send tx msg (n\<lparr>punch_waiters := hm_remove ka (punch_waiters n)\<rparr>)))"
    "flows n (snd (chan_send tx msg (n\<lparr>rtc_waiters := hm_remove ka (rtc_waiters n)\<rparr>)))"
    by (rule flows_trans [OF flows_same flows_send]; simp)+
next
  fix n :: net and cd qu qu'
  assume "hm_get (chans n) cd = Some qu" "suffix qu' qu"
  then show "flows n (n\<lparr>chans := hm_insert cd qu' (chans n)\<rparr>)"
    using later_suffix by (intro flows_at [of cd]) (auto simp del: later.simps)
next
  fix n cx
  show "flows n (chan_drop cx n)"
    by (rule flows_at [of cx]) (auto simp: chan_drop_def, cases "hm_get (chans n) cx", simp_all)
next
  fix n :: net and kl tk ad
  show "flows n (mark_live e kl tk ad n)" "flows n (touch_live e kl n)" "flows n (drop_live kl n)"
    by (rule flows_same; simp add: mark_live_def touch_live_def drop_live_def world_simps split: option.split)+
qed (auto intro!: flows_same simp: world_simps effect_def emit_def)

section \<open>Property\<close>

lemma start_numbered_chans: "reachable e greet s \<Longrightarrow> numbered_chans (fst s)"
proof (induction rule: reachable.induct)
  case (start tcp udp ws disco n)
  then show ?case
    by (auto simp: engine_start_def fresh_net_def numbered_chans_def Let_def split: sum.splits)
next
  case (step s s')
  then show ?case using queues.step_in_law [OF step(2)] by (simp add: flows_def)
qed

lemma run_flows: "rtranclp (sys_step e greet) s s' \<Longrightarrow> flows (fst s) (fst s')"
  by (induction rule: rtranclp_induct) (auto intro: flows_same flows_trans queues.step_in_law)



end
