(* ===== verification/Rtc_Drive.thy ===== *)
theory Rtc_Drive
  imports Simulation "HOL-Library.Monad_Syntax"
begin

text \<open>
  The WebRTC thread with its \<open>str0m\<close> engine (\<open>drive\<close> in \<open>transport/rtc.rs\<close>). The engine is a
  parameter: a state of any type and the methods \<open>drive\<close> calls on it. Every turn of the
  detailed loop is a turn of the thread as \<open>Link_Rtc\<close> has it, so a step of the system.
\<close>

section \<open>The engine and the socket\<close>

text \<open>
  \<open>poll_output\<close> asks for a time-out (an instant, in nanoseconds), hands out a datagram or an
  event, or fails. \<open>sm_has\<close> and \<open>sm_write\<close> are \<open>rtc.channel(c)\<close> and the write on what it returns;
  \<open>sm_accepts\<close> is the conversion of a datagram's bytes; \<open>sm_receive\<close> and \<open>sm_timeout\<close> are
  \<open>handle_input\<close>, with source and destination address.
\<close>

datatype poll = PollTimeout nat | PollOutput rtc_output | PollFailed

record 's str0m =
  sm_alive :: "'s \<Rightarrow> bool"
  sm_poll :: "'s \<Rightarrow> poll \<times> 's"
  sm_has :: "nat \<Rightarrow> 's \<Rightarrow> bool"
  sm_write :: "nat \<Rightarrow> bytes \<Rightarrow> 's \<Rightarrow> 's"
  sm_disconnect :: "'s \<Rightarrow> 's"
  sm_accepts :: "bytes \<Rightarrow> bool"
  sm_receive :: "nat \<Rightarrow> sock_addr \<Rightarrow> sock_addr \<Rightarrow> bytes \<Rightarrow> 's \<Rightarrow> 's"
  sm_timeout :: "nat \<Rightarrow> 's \<Rightarrow> 's"

text \<open>What a turn gets from the machine: the clock before the wait and after it, and what
  \<open>recv_from\<close> returned (\<open>None\<close>: time-out or error).\<close>

record drive_in =
  di_now :: nat
  di_recv :: "(bytes \<times> sock_addr) option"
  di_at :: nat

section \<open>The loop\<close>

fun drive_write :: "'s str0m \<Rightarrow> nat \<Rightarrow> string list \<Rightarrow> 's \<Rightarrow> string list \<times> 's" where
  "drive_write sm c [] s = ([], s)"
| "drive_write sm c (f # fs) s =
     (if sm_has sm c s
      then (let (sent, s) = drive_write sm c fs (sm_write sm c (str_bytes f) s) in (f # sent, s))
      else drive_write sm c fs s)"

definition drive_flush :: "'s str0m \<Rightarrow> rtc_conn \<Rightarrow> 's \<Rightarrow> net \<Rightarrow> string list \<times> 's \<times> net" where
  "drive_flush sm r s n =
     (case rc_cid r of
        None \<Rightarrow> ([], s, n)
      | Some c \<Rightarrow>
          (case hm_get (chans n) (rc_chan r) of
             None \<Rightarrow> ([], s, n)
           | Some q \<Rightarrow>
               (let (sent, s) = drive_write sm c (frames_of q) s
                in (sent, s, n\<lparr>chans := hm_insert (rc_chan r) [] (chans n)\<rparr>))))"

fun transmitted :: "rtc_output \<Rightarrow> (bytes \<times> sock_addr) list" where
  "transmitted (Transmit b a) = [(b, a)]"
| "transmitted _ = []"

text \<open>
  The inner loop ends when the engine asks for a time-out or fails; it has no bound of its own.
  The result is the instant asked for, the datagrams sent and the state.
\<close>

partial_function (option) drive_pump ::
  "'s str0m \<Rightarrow> env \<Rightarrow> rtc_conn \<Rightarrow> 's \<Rightarrow> net \<Rightarrow>
   (nat option \<times> (bytes \<times> sock_addr) list \<times> rtc_conn \<times> 's \<times> net) option" where
  "drive_pump sm e r s n =
     (case sm_poll sm s of
        (PollTimeout t, s) \<Rightarrow> Some (Some t, [], r, s, n)
      | (PollFailed, s) \<Rightarrow> Some (None, [], r, s, n)
      | (PollOutput x, s) \<Rightarrow> do {
          let (r, n) = rtc_on_output e r x n;
          let s = (if x = ChannelClose then sm_disconnect sm s else s);
          (t, tx, r, s, n) \<leftarrow> drive_pump sm e r s n;
          Some (t, transmitted x @ tx, r, s, n)
        })"

text \<open>The read time-out, in nanoseconds, and what is fed to the engine.\<close>

definition drive_wait :: "nat \<Rightarrow> nat \<Rightarrow> nat" where
  "drive_wait now timeout =
     (if timeout \<le> now then 1000000 else min (timeout - now) 250000000)"

definition drive_input :: "'s str0m \<Rightarrow> sock_addr option \<Rightarrow> drive_in \<Rightarrow> 's \<Rightarrow> 's" where
  "drive_input sm local_addr i s =
     (case di_recv i of
        Some (d, source) \<Rightarrow>
          (let buf = take 2000 d; dest = (case local_addr of None \<Rightarrow> source | Some l \<Rightarrow> l)
           in if sm_accepts sm buf then sm_receive sm (di_at i) source dest buf s else s)
      | None \<Rightarrow> sm_timeout sm (di_at i) s)"

text \<open>
  One turn: whether the loop ends, the frames written to the channel, the datagrams sent, the
  read time-out that was set, and the state.
\<close>

definition drive_turn ::
  "'s str0m \<Rightarrow> env \<Rightarrow> sock_addr option \<Rightarrow> drive_in \<Rightarrow> rtc_conn \<Rightarrow> 's \<Rightarrow> net \<Rightarrow>
   (bool \<times> string list \<times> (bytes \<times> sock_addr) list \<times> nat option \<times> rtc_conn \<times> 's \<times> net) option" where
  "drive_turn sm e local_addr i r s n =
     (if \<not> sm_alive sm s then Some (True, [], [], None, r, s, n)
      else
        let (sent, s, n) = drive_flush sm r s n in do {
          (t, tx, r, s, n) \<leftarrow> drive_pump sm e r s n;
          case t of
            None \<Rightarrow> Some (True, sent, tx, None, r, s, n)
          | Some t \<Rightarrow>
              if rc_registered r \<and> \<not> link_current (rc_node r) (rc_id r) n
              then Some (True, sent, tx, None, r, s, n)
              else Some (False, sent, tx, Some (drive_wait (di_now i) t), r, drive_input sm local_addr i s, n)
        })"

text \<open>The thread over the list of what its turns get; it is still running at the end of the
  list, or has cleaned up.\<close>

fun drive ::
  "'s str0m \<Rightarrow> env \<Rightarrow> sock_addr option \<Rightarrow> drive_in list \<Rightarrow> rtc_conn \<Rightarrow> 's \<Rightarrow> net \<Rightarrow>
   (string list \<times> (rtc_conn \<times> 's) option \<times> net) option" where
  "drive sm e local_addr [] r s n = Some ([], Some (r, s), n)"
| "drive sm e local_addr (i # is) r s n =
     (case drive_turn sm e local_addr i r s n of
        None \<Rightarrow> None
      | Some (True, sent, _, _, r, s, n) \<Rightarrow> Some (sent, None, rtc_close r n)
      | Some (False, sent, _, _, r, s, n) \<Rightarrow> do {
          (more, rest, n) \<leftarrow> drive sm e local_addr is r s n;
          Some (sent @ more, rest, n)
        })"

section \<open>Starting it\<close>

text \<open>
  \<open>apply_answer_and_run\<close> and \<open>accept_offer_and_run\<close>: the SDP parses, the engine takes it, and
  the thread is started (the flag, and what is returned besides).
\<close>

record sdp_lib =
  sdp_parses :: "string \<Rightarrow> bool"
  sdp_takes :: "string \<Rightarrow> bool"

definition apply_answer_and_run :: "sdp_lib \<Rightarrow> string \<Rightarrow> string \<Rightarrow> bool \<times> spawned list" where
  "apply_answer_and_run lib answer_sdp node_id =
     (if \<not> sdp_parses lib answer_sdp then (False, [])
      else if \<not> sdp_takes lib answer_sdp then (False, [])
      else (True, [RtcThread answer_sdp node_id]))"

definition accept_offer_and_run ::
  "rtc_lib \<Rightarrow> sdp_lib \<Rightarrow> rtc_cand list option \<Rightarrow> string \<Rightarrow> string \<Rightarrow> string option \<times> spawned list" where
  "accept_offer_and_run lib sdp rtc offer_sdp node_id =
     (if \<not> sdp_parses sdp offer_sdp then (None, [])
      else
        case accept_offer lib rtc offer_sdp of
          None \<Rightarrow> (None, [])
        | Some answer \<Rightarrow> (Some answer, [RtcThread offer_sdp node_id]))"

lemma offer_spawns:
  "fst (on_sig e io (\<lambda>sdp. fst (accept_offer_and_run lib sl rtc sdp k)) k (SdpOffer sid sdp) n) =
   snd (accept_offer_and_run lib sl rtc sdp k)"
  by (auto simp: accept_offer_and_run_def Let_def split: option.split prod.split)

section \<open>The engine settles\<close>

text \<open>
  \<open>str0m\<close> documents that repeated calls of \<open>poll_output\<close> reach a time-out. \<open>settles sm m\<close>: the
  outputs still to come, \<open>m\<close>, get fewer with every output, also when the engine is told to
  disconnect after it.
\<close>

definition settles :: "'s str0m \<Rightarrow> ('s \<Rightarrow> nat) \<Rightarrow> bool" where
  "settles sm m = (\<forall>s x s'. sm_poll sm s = (PollOutput x, s') \<longrightarrow> m s' < m s \<and> m (sm_disconnect sm s') < m s)"

lemma drive_pump_returns:
  assumes "settles sm m"
  shows "\<exists>res. drive_pump sm e r s n = Some res"
proof (induction "m s" arbitrary: r s n rule: less_induct)
  case less
  obtain p s1 where p: "sm_poll sm s = (p, s1)" by fastforce
  show ?case
  proof (cases p)
    case (PollOutput x)
    obtain r1 n1 where o: "rtc_on_output e r x n = (r1, n1)" by fastforce
    let ?s = "if x = ChannelClose then sm_disconnect sm s1 else s1"
    have "m ?s < m s" using assms p PollOutput by (auto simp: settles_def)
    from less [OF this] obtain t tx r2 s2 n2 where "drive_pump sm e r1 ?s n1 = Some (t, tx, r2, s2, n2)"
      by (metis prod_cases5)
    then show ?thesis by (subst drive_pump.simps) (simp add: p PollOutput o Let_def)
  qed (simp_all add: drive_pump.simps [of sm e r s n] p)
qed

lemma drive_turn_returns:
  assumes "settles sm m"
  shows "\<exists>stop sent tx w r' s' n'. drive_turn sm e l i r s n = Some (stop, sent, tx, w, r', s', n')"
proof -
  obtain sent s1 n1 where f: "drive_flush sm r s n = (sent, s1, n1)" by (metis prod_cases3)
  obtain t tx r2 s2 n2 where "drive_pump sm e r s1 n1 = Some (t, tx, r2, s2, n2)"
    using drive_pump_returns [OF assms, of e r s1 n1] by auto
  then show ?thesis by (auto simp: drive_turn_def f split: option.split)
qed

lemma drive_returns:
  assumes "settles sm m"
  shows "\<exists>res. drive sm e l is r s n = Some res"
proof (induction "is" arbitrary: r s n)
  case (Cons i "is")
  obtain stop sent tx w r' s' n' where "drive_turn sm e l i r s n = Some (stop, sent, tx, w, r', s', n')"
    using drive_turn_returns [OF assms] by metis
  then show ?case using Cons [of r' s' n'] by (cases stop) auto
qed simp

section \<open>A turn with the engine is a turn\<close>

lemma rtc_write_cong: "(\<And>j. k \<le> j \<Longrightarrow> f j = g j) \<Longrightarrow> rtc_write f k fs = rtc_write g k fs"
  by (induction fs arbitrary: k) auto

lemma drive_write_rtc_write:
  "drive_write sm c fs s = (sent, s') \<Longrightarrow> \<exists>found. sent = rtc_write found k fs"
proof (induction fs arbitrary: s sent k)
  case (Cons f fs)
  show ?case
  proof (cases "sm_has sm c s")
    case True
    then obtain more where m: "drive_write sm c fs (sm_write sm c (str_bytes f) s) = (more, s')" "sent = f # more"
      using Cons.prems by (auto split: prod.splits)
    from Cons.IH [OF m(1)] obtain found where "more = rtc_write found (Suc k) fs" by blast
    then show ?thesis
      using m(2) by (intro exI [of _ "\<lambda>j. j = k \<or> found j"]) (auto intro: rtc_write_cong)
  next
    case False
    then have "drive_write sm c fs s = (sent, s')" using Cons.prems by simp
    from Cons.IH [OF this] obtain found where "sent = rtc_write found (Suc k) fs" by blast
    then show ?thesis
      by (intro exI [of _ "\<lambda>j. j \<noteq> k \<and> found j"]) (auto intro: rtc_write_cong)
  qed
qed simp

lemma drive_flush_rtc_flush:
  assumes "drive_flush sm r s n = (sent, s', n')"
  shows "\<exists>found. rtc_flush found r n = (sent, n')"
proof (cases "rc_cid r")
  case (Some c)
  show ?thesis
  proof (cases "hm_get (chans n) (rc_chan r)")
    case q: (Some q)
    obtain sent1 s1 where w: "drive_write sm c (frames_of q) s = (sent1, s1)" by fastforce
    obtain found where "sent1 = rtc_write found 0 (frames_of q)"
      using drive_write_rtc_write [OF w] by blast
    then show ?thesis
      using assms by (intro exI [of _ "\<lambda>k c. found k"]) (simp add: drive_flush_def rtc_flush_def Some q w)
  qed (use assms in \<open>simp add: drive_flush_def rtc_flush_def Some\<close>)
qed (use assms in \<open>simp add: drive_flush_def rtc_flush_def\<close>)

text \<open>By induction over the unfoldings of the inner loop.\<close>

lemma drive_pump_rtc_pump:
  assumes "drive_pump sm e r s n = Some (t, tx, r', s', n')"
  shows "\<exists>xs. rtc_pump e r xs n = (r', n') \<and> tx = concat (map transmitted xs)"
proof -
  define P where "P = (\<lambda>(sm :: 'a str0m) e r (s :: 'a) n res.
    case res of (t :: nat option, tx, r', s' :: 'a, n') \<Rightarrow>
      \<exists>xs. rtc_pump e r xs n = (r', n') \<and> tx = concat (map transmitted xs))"
  have "P sm e r s n (t, tx, r', s', n')"
  proof (rule drive_pump.raw_induct [OF _ assms])
    fix f and sm :: "'a str0m" and e r s n y
    assume IH: "\<And>sm e r s n y. f sm e r s n = Some y \<Longrightarrow> P sm e r s n y"
      and eq: "(case sm_poll sm s of
        (PollTimeout t, s) \<Rightarrow> Some (Some t, [], r, s, n)
      | (PollFailed, s) \<Rightarrow> Some (None, [], r, s, n)
      | (PollOutput x, s) \<Rightarrow> do {
          let (r, n) = rtc_on_output e r x n;
          let s = (if x = ChannelClose then sm_disconnect sm s else s);
          (t, tx, r, s, n) \<leftarrow> f sm e r s n;
          Some (t, transmitted x @ tx, r, s, n)
        }) = Some y"
    obtain p s1 where p: "sm_poll sm s = (p, s1)" by fastforce
    show "P sm e r s n y"
    proof (cases p)
      case (PollTimeout t)
      then show ?thesis using eq by (auto simp: P_def p intro: exI [of _ "[]"])
    next
      case PollFailed
      then show ?thesis using eq by (auto simp: P_def p intro: exI [of _ "[]"])
    next
      case (PollOutput x)
      obtain r1 n1 where o: "rtc_on_output e r x n = (r1, n1)" by fastforce
      let ?s = "if x = ChannelClose then sm_disconnect sm s1 else s1"
      obtain t tx r2 s2 n2 where f: "f sm e r1 ?s n1 = Some (t, tx, r2, s2, n2)"
        and y: "y = (t, transmitted x @ tx, r2, s2, n2)"
        using eq by (auto simp: p PollOutput o Let_def bind_eq_Some_conv)
      from IH [OF f] obtain xs where "rtc_pump e r1 xs n1 = (r2, n2)" "tx = concat (map transmitted xs)"
        by (auto simp: P_def)
      then show ?thesis by (auto simp: P_def y o intro!: exI [of _ "x # xs"])
    qed
  qed
  then show ?thesis by (simp add: P_def)
qed

lemma drive_turn_rtc_turn:
  assumes "drive_turn sm e l i r s n = Some (stop, sent, tx, w, r', s', n')"
  shows "\<exists>j. rtc_turn e r j n = (stop, sent, r', n')"
proof (cases "sm_alive sm s")
  case True
  obtain sent1 s1 n1 where f: "drive_flush sm r s n = (sent1, s1, n1)" by (metis prod_cases3)
  obtain found where found: "rtc_flush found r n = (sent1, n1)" using drive_flush_rtc_flush [OF f] by blast
  obtain t tx1 r2 s2 n2 where p: "drive_pump sm e r s1 n1 = Some (t, tx1, r2, s2, n2)"
    using assms True by (auto simp: drive_turn_def f bind_eq_Some_conv)
  obtain xs where xs: "rtc_pump e r xs n1 = (r2, n2)" using drive_pump_rtc_pump [OF p] by blast
  have *: "sent = sent1 \<and> r' = r2 \<and> n' = n2 \<and>
      stop = (t = None \<or> rc_registered r2 \<and> \<not> link_current (rc_node r2) (rc_id r2) n2)"
    using assms True by (auto simp: drive_turn_def f p split: option.splits if_splits)
  show ?thesis
    by (rule exI [of _ "\<lparr>ri_alive = True, ri_channel = found, ri_outputs = xs, ri_failed = (t = None)\<rparr>"])
      (simp add: rtc_turn_def found xs *)
next
  case False
  then show ?thesis
    using assms
    by (intro exI [of _ "\<lparr>ri_alive = False, ri_channel = \<lambda>_ _. False, ri_outputs = [], ri_failed = False\<rparr>"])
      (simp add: drive_turn_def rtc_turn_def)
qed

lemma drive_turn_wait:
  assumes "drive_turn sm e l i r s n = Some (stop, sent, tx, w, r', s', n')"
  shows "case w of None \<Rightarrow> stop | Some d \<Rightarrow> \<not> stop \<and> 0 < d \<and> d \<le> 250000000"
proof (cases "sm_alive sm s")
  case True
  obtain sent1 s1 n1 where f: "drive_flush sm r s n = (sent1, s1, n1)" by (metis prod_cases3)
  obtain t tx1 r2 s2 n2 where p: "drive_pump sm e r s1 n1 = Some (t, tx1, r2, s2, n2)"
    using assms True by (auto simp: drive_turn_def f bind_eq_Some_conv)
  have "0 < drive_wait a b \<and> drive_wait a b \<le> 250000000" for a b by (simp add: drive_wait_def)
  then show ?thesis using assms True by (cases t) (auto simp: drive_turn_def f p split: if_splits)
qed (use assms in \<open>auto simp: drive_turn_def\<close>)

section \<open>Properties\<close>


text \<open>An engine that hands out a list of outputs and then asks for a time-out.\<close>

definition sample_engine :: "rtc_output list str0m" where
  "sample_engine = \<lparr>sm_alive = \<lambda>_. True,
     sm_poll = \<lambda>xs. (case xs of [] \<Rightarrow> (PollTimeout 5, []) | x # ys \<Rightarrow> (PollOutput x, ys)),
     sm_has = \<lambda>_ _. True, sm_write = \<lambda>_ _ xs. xs, sm_disconnect = \<lambda>xs. [], sm_accepts = \<lambda>_. True,
     sm_receive = \<lambda>_ _ _ _ xs. xs, sm_timeout = \<lambda>_ xs. xs\<rparr>"

lemma sample_engine_settles: "settles sample_engine length"
  by (auto simp: settles_def sample_engine_def split: list.splits)


end
