(* ===== verification/Ladder.thy ===== *)
theory Ladder
  imports Simulation
begin

text \<open>
  The connection ladder among the other threads of the program: during each of its pauses any
  number of operations, signals and link turns can happen. What the ladder then reports,
  returns, leaves behind and how long it waits.
\<close>

section \<open>The other threads\<close>

text \<open>
  What can happen during a pause: an engine operation, a signal, a turn or the end of a link
  thread (with the state that thread has), or the opening of a link. Only the start of
  another ladder is left out.
\<close>

datatype other_op =
    OtherCall net_op
  | OtherSignal ladder_io "string \<Rightarrow> string option" string string
  | OtherWsOpen
  | OtherWsTurn ws_conn ws_read "nat \<Rightarrow> bool"
  | OtherWsGone ws_conn
  | OtherWsFinish ws_conn "string option"
  | OtherPunchOpen nat sock_addr string
  | OtherPunchTurn punch_conn punch_turn_in
  | OtherPunchEnd punch_conn
  | OtherRtcOpen string
  | OtherRtcTurn rtc_conn rtc_turn_in
  | OtherRtcEnd rtc_conn

fun other_step :: "env \<Rightarrow> net \<Rightarrow> other_op \<Rightarrow> net" where
  "other_step e n (OtherCall x) = net_step e x n"
| "other_step e n (OtherSignal io acc s pay) = snd (on_signal e io acc s pay n)"
| "other_step e n OtherWsOpen = snd (snd (ws_start e n))"
| "other_step e n (OtherWsTurn w r ok) = snd (snd (snd (ws_turn e w r ok n)))"
| "other_step e n (OtherWsGone w) = snd (ws_unregister w n)"
| "other_step e n (OtherWsFinish w g) = ws_finish w g n"
| "other_step e n (OtherPunchOpen now a k) = snd (punch_start e now a k n)"
| "other_step e n (OtherPunchTurn p i) =
     (case punch_turn e p i n of None \<Rightarrow> n | Some (_, _, _, n') \<Rightarrow> n')"
| "other_step e n (OtherPunchEnd p) = punch_close p n"
| "other_step e n (OtherRtcOpen k) = snd (rtc_start k n)"
| "other_step e n (OtherRtcTurn r i) = snd (snd (snd (rtc_turn e r i n)))"
| "other_step e n (OtherRtcEnd r) = rtc_close r n"

fun other_ladder :: "other_op \<Rightarrow> bool" where
  "other_ladder (OtherCall x) = reports x"
| "other_ladder _ = False"

fun_cases other_ladderE: "other_ladder x"

section \<open>They report nothing and start no negotiation\<close>

lemma neutral_climbs: "neutral n n' \<Longrightarrow> climbs [] n n'"
  by (simp add: neutral_def)

lemma climbs_conns: "climbs [] n m \<Longrightarrow> climbs [] n (m\<lparr>ws_conns := x\<rparr>)" "climbs [] n m \<Longrightarrow> climbs [] n (m\<lparr>chans := y\<rparr>)"
  "climbs [] n m \<Longrightarrow> climbs [] n (chan_drop c m)"
  by (simp_all add: climbs_def chan_drop_def)

lemma climbs_live: "climbs [] n m \<Longrightarrow> climbs [] n (mark_live e k t a m)" "climbs [] n m \<Longrightarrow> climbs [] n (drop_live k m)"
  "climbs [] n m \<Longrightarrow> climbs [] n (touch_live e k m)" "climbs [] n m \<Longrightarrow> climbs [] n (handle_incoming e env ip p m)"
  by (erule climbs_quiet(2), simp add: neutral_climbs handle_incoming_neutral)+

lemma climbs_emit: "climbs [] n m \<Longrightarrow> stage_of (Emit ev) = None \<Longrightarrow> climbs [] n (emit ev m)"
  using climbs_quiet(2) [OF _ climbs_effect] by (simp add: emit_def effect_def)

lemmas climbs_after = climbs_conns climbs_live climbs_emit

lemma ws_turn_climbs:
  assumes "ws_turn e w r ok n = (b, w', s, n')"
  shows "climbs [] n n'"
proof -
  have "climbs [] n m" if "ws_on_read e w r n = (c, w1, m)" for c w1 m
    using that by (cases r) (auto simp: ws_hello_def Let_def climbs_refl split: option.splits ws_frame.splits
        if_splits intro!: climbs_after)
  moreover have "climbs [] m n'" if "ws_flush ok c m = (s, d, n')" for c m s d n'
    using that by (auto simp: ws_flush_def Let_def climbs_refl split: option.splits prod.splits
        intro!: climbs_conns)
  ultimately show ?thesis
    using assms by (auto simp: ws_turn_def Let_def split: prod.splits bool.splits intro: climbs_quiet)
qed

lemma ws_end_climbs: "ws_unregister w n = (g, n') \<Longrightarrow> climbs [] n n'" "climbs [] n (ws_finish w g n)"
  by (auto simp: ws_unregister_def ws_finish_def climbs_refl split: option.split option.splits if_splits
      intro!: climbs_after)

lemma punch_turn_climbs:
  assumes "punch_turn e p i n = Some (b, s, p', n')"
  shows "climbs [] n n'"
proof -
  have f: "climbs [] n m" if "punch_flush io p n = (s, d, p', m)" for io s d p' m
    using that by (auto simp: punch_flush_def Let_def climbs_refl split: option.splits prod.splits
        intro!: climbs_conns)
  have d: "climbs [] m n'" if "punch_on_dgram e p r m = Some (s, p', n')" for p r m s p' n'
    using that by (auto simp: punch_on_dgram_def Let_def climbs_refl
        split: option.splits prod.splits if_splits ws_frame.splits intro!: climbs_after)
  show ?thesis
    using assms by (auto simp: punch_turn_def Let_def split: prod.splits if_splits option.splits
        dest!: f d intro: climbs_quiet)
qed

lemma open_close_climbs:
  "climbs [] n (snd (snd (ws_start e n)))" "climbs [] n (snd (rtc_start k n))"
  "climbs [] n (snd (punch_start e now a k n))" "climbs [] n (punch_close p n)" "climbs [] n (rtc_close r n)"
proof -
  have c: "climbs [] n (n\<lparr>next_chan := a, chans := b, ws_seq := d\<rparr>)"
    "climbs [] n (n\<lparr>next_chan := a, chans := b, rtc_seq := d\<rparr>)"
    "climbs [] n (n\<lparr>next_chan := a, chans := b, punch_seq := d\<rparr>)" for a b d
    by (simp_all add: climbs_def)
  show "climbs [] n (snd (snd (ws_start e n)))" "climbs [] n (snd (rtc_start k n))"
    "climbs [] n (snd (punch_start e now a k n))" "climbs [] n (punch_close p n)" "climbs [] n (rtc_close r n)"
    by (auto simp: ws_start_def rtc_start_def punch_start_def punch_close_def rtc_close_def rtc_cleanup_def
        new_channel_def Let_def c climbs_refl intro!: climbs_after)
qed

lemma rtc_turn_climbs:
  assumes "rtc_turn e r i n = (b, s, r', n')"
  shows "climbs [] n n'"
proof -
  have one: "climbs [] m n'" if "rtc_on_output e r x m = (r', n')" for r x m r' n'
    using that by (cases x) (auto simp: Let_def climbs_refl split: if_splits option.splits ws_frame.splits
        intro!: climbs_after)
  have pump: "rtc_pump e r xs m = (r', n') \<Longrightarrow> climbs [] m n'" for r xs m r' n'
    by (induction xs arbitrary: r m)
      (auto simp: Let_def climbs_refl split: prod.splits dest!: one intro: climbs_quiet)
  obtain sent m where f: "rtc_flush (ri_channel i) r n = (sent, m)" by fastforce
  obtain r1 m1 where p: "rtc_pump e r (ri_outputs i) m = (r1, m1)" by fastforce
  have "climbs [] n m"
    using f by (auto simp: rtc_flush_def climbs_refl split: option.splits intro!: climbs_conns)
  then have "climbs [] n m1" using pump [OF p] by (rule climbs_quiet)
  then show ?thesis using assms by (auto simp: rtc_turn_def f p climbs_refl split: if_splits)
qed

lemma on_signal_climbs: "on_signal e io acc s pay n = (sp, n') \<Longrightarrow> climbs [] n n'"
proof (cases "signal_from_str e pay")
  case (Some sig)
  assume "on_signal e io acc s pay n = (sp, n')"
  then have o: "on_sig e io acc s sig n = (sp, n')" using Some by (simp add: on_signal_def)
  show ?thesis
  proof (cases "\<exists>a b c. sig = WsReady a b c")
    case True
    then show ?thesis using o by (auto split: prod.splits sum.splits dest: ws_connect_climbs)
  next
    case False
    then show ?thesis using on_sig_neutral [OF o] neutral_climbs by blast
  qed
qed (simp add: on_signal_def climbs_refl)

lemma other_step_climbs: "\<not> other_ladder x \<Longrightarrow> climbs [] n (other_step e n x)"
proof (cases x)
  case (OtherWsTurn w r ok)
  then show ?thesis using ws_turn_climbs by (metis other_step.simps(4) prod.collapse)
next
  case (OtherRtcTurn r i)
  then show ?thesis using rtc_turn_climbs by (metis other_step.simps(11) prod.collapse)
qed (auto simp: open_close_climbs ws_end_climbs neutral_climbs net_step_neutral
      split: option.split dest: punch_turn_climbs
      intro: on_signal_climbs [OF prod.collapse [symmetric]] ws_end_climbs(1) [OF prod.collapse [symmetric]])

text \<open>The pauses of a ladder, filled with what the others do.\<close>

definition others_of :: "env \<Rightarrow> (nat \<Rightarrow> other_op list) \<Rightarrow> nat \<Rightarrow> net \<Rightarrow> net" where
  "others_of e script i n = foldl (other_step e) n (filter (\<lambda>x. \<not> other_ladder x) (script i))"

interpretation pauses: bystander "others_of e script" for e script
proof
  fix n i
  have "climbs [] n (foldl (other_step e) n xs)" if "\<forall>x \<in> set xs. \<not> other_ladder x" for xs
    using that
  proof (induction xs arbitrary: n)
    case (Cons x xs)
    then show ?case by (auto intro: climbs_quiet(1) [OF other_step_climbs])
  qed (simp add: climbs_refl)
  then show "climbs [] n (others_of e script i n)" by (simp add: others_of_def)
qed

section \<open>How long it waits\<close>

lemma wait_live_slots: "wait_live others k s i n = (b, j, n') \<Longrightarrow> j \<le> i + s"
proof (induction s arbitrary: i n)
  case (Suc s)
  then show ?case
    using Suc.IH [of "Suc i" "others i n"] by (cases "is_live (others i n) k") (auto simp: Let_def)
qed simp

lemma ladder_wait_slots: "ladder_wait others k ms l = (b, l') \<Longrightarrow> la_slot l' \<le> la_slot l + ms div 100"
  by (auto simp: ladder_wait_def split: prod.splits dest!: wait_live_slots)

lemma slot_simps [simp]:
  "la_slot (progress k s d l) = la_slot l" "la_slot (close_rx c l) = la_slot l"
  "la_slot (drop_punch_waiter sid l) = la_slot l" "la_slot (drop_rtc_waiter sid l) = la_slot l"
  "la_slot (snd (ladder_uuid e l)) = la_slot l" "la_slot (snd (ladder_signal e k sig l)) = la_slot l"
  "la_slot (snd (ladder_recv others c l)) = Suc (la_slot l)"
  by (simp_all add: progress_def close_rx_def drop_punch_waiter_def drop_rtc_waiter_def ladder_uuid_def
      ladder_signal_def ladder_recv_def pause_def Let_def split: prod.split)

lemma slot_snd: "r = (x, l') \<Longrightarrow> la_slot (snd r) = m \<Longrightarrow> la_slot l' = m"
  by simp

lemma rung_slots:
  "rung_lan e others k p l = (b, l') \<Longrightarrow> la_slot l' \<le> la_slot l + 20"
  "rung_ws e io others k p l = (b, l') \<Longrightarrow> la_slot l' \<le> la_slot l + 30"
  "rung_signal e others k l = (b, l') \<Longrightarrow> la_slot l' \<le> la_slot l + 80"
  "rung_punch e io others k l = (b, l') \<Longrightarrow> la_slot l' \<le> la_slot l + 121"
  "rung_rtc e io others k l = (b, l') \<Longrightarrow> la_slot l' \<le> la_slot l + 121"
proof -
  note slots = ladder_wait_slots slot_snd [OF _ slot_simps(5)] slot_snd [OF _ slot_simps(6)]
    slot_snd [OF _ slot_simps(7)]
  show "rung_lan e others k p l = (b, l') \<Longrightarrow> la_slot l' \<le> la_slot l + 20"
    by (auto simp: rung_lan_def udp_ping_connect_def Let_def split: if_splits prod.splits sum.splits bool.splits
        dest!: slots)
  show "rung_ws e io others k p l = (b, l') \<Longrightarrow> la_slot l' \<le> la_slot l + 30"
    by (auto simp: rung_ws_def Let_def split: if_splits prod.splits sum.splits dest!: slots)
  show "rung_signal e others k l = (b, l') \<Longrightarrow> la_slot l' \<le> la_slot l + 80"
    by (auto simp: rung_signal_def Let_def split: prod.splits bool.splits dest!: slots)
  show "rung_punch e io others k l = (b, l') \<Longrightarrow> la_slot l' \<le> la_slot l + 121"
    by (auto simp: rung_punch_def Let_def split: prod.splits bool.splits option.splits chan_msg.splits
        dest!: slots)
  show "rung_rtc e io others k l = (b, l') \<Longrightarrow> la_slot l' \<le> la_slot l + 121"
    by (auto simp: rung_rtc_def Let_def split: prod.splits bool.splits option.splits chan_msg.splits if_splits
        dest!: slots)
qed

text \<open>\<open>patient m f\<close>: \<open>f\<close> pauses at most \<open>m\<close> times.\<close>

definition patient :: "nat \<Rightarrow> (ladder \<Rightarrow> bool \<times> ladder) \<Rightarrow> bool" where
  "patient m f = (\<forall>l. la_slot (snd (f l)) \<le> la_slot l + m)"

lemma patientI: "(\<And>l b l'. f l = (b, l') \<Longrightarrow> la_slot l' \<le> la_slot l + m) \<Longrightarrow> patient m f"
  unfolding patient_def by (metis prod.collapse)

lemma patientD: "patient m f \<Longrightarrow> f l = (b, l') \<Longrightarrow> la_slot l' \<le> la_slot l + m"
  unfolding patient_def by (metis snd_conv)

lemma patient_or_else:
  assumes f: "patient m f" and g: "patient j g"
  shows "patient (m + j) (\<lambda>l. or_else (f l) g)"
proof (rule patientI)
  fix l b l'
  assume h: "or_else (f l) g = (b, l')"
  obtain c x where x: "f l = (c, x)" by fastforce
  show "la_slot l' \<le> la_slot l + (m + j)"
    using h patientD [OF f x] patientD [OF g, of x b l'] by (cases c) (auto simp: or_else_def x)
qed

lemma patient_rungs:
  "patient 20 (rung_lan e others k p)" "patient 30 (rung_ws e io others k p)"
  "patient 80 (rung_signal e others k)" "patient 121 (rung_punch e io others k)"
  "patient 121 (rung_rtc e io others k)" "patient 0 (\<lambda>l. (False, progress k s d l))"
  by (rule patientI, erule rung_slots)+ (simp add: patient_def)

lemma patient_ladder:
  "patient 372 (\<lambda>l. or_else (rung_lan e others k p l) (\<lambda>l.
     or_else (rung_ws e io others k p l) (\<lambda>l.
     or_else (rung_signal e others k l) (\<lambda>l.
     or_else (rung_punch e io others k l) (\<lambda>l.
     or_else (rung_rtc e io others k l) (\<lambda>l. (False, progress k s d l)))))))"
proof -
  note r = patient_rungs(5) [THEN patient_or_else, OF patient_rungs(6)]
  note r = patient_rungs(4) [THEN patient_or_else, OF r]
  note r = patient_rungs(3) [THEN patient_or_else, OF r]
  note r = patient_rungs(2) [THEN patient_or_else, OF r]
  note r = patient_rungs(1) [THEN patient_or_else, OF r]
  show ?thesis using r by simp
qed

section \<open>How it ends\<close>

lemma or_else_failed:
  assumes "or_else r f = (False, l')" "\<And>l l'. f l = (False, l') \<Longrightarrow> P l'"
  shows "P l'"
  using assms by (cases r) (auto simp: or_else_def split: bool.splits)

lemma ladder_failure:
  assumes "run_connect_ladder e io others k n = (False, l)"
  shows "\<exists>d m. l = progress k ''failed'' (Some d) m"
  using assms
  by (auto simp: run_connect_ladder_def Let_def split: if_splits option.splits
      dest!: or_else_failed [where P = "\<lambda>l. \<exists>d m. l = progress k ''failed'' (Some d) m"])

section \<open>Properties\<close>


text \<open>C18: the ladder always ends, after at most 372 pauses. At most 370 of them are the 100 ms of
  \<open>wait_live\<close>, and one each is the wait for a punch and for an SDP answer (at most 8 and 10
  seconds), so \<open>connect\<close> has reported its result after at most 55 seconds of waiting, whatever
  the peer, the registry and the other threads do.\<close>

theorem ladder_ends: "la_slot (snd (run_connect_ladder e io others k n)) \<le> 372"
proof -
  have "la_slot (snd (f l)) \<le> 372" if "patient 372 f" "la_slot l = 0" for f l
    using that unfolding patient_def by (metis add_0)
  from this [OF patient_ladder] show ?thesis by (simp add: run_connect_ladder_def Let_def split: option.split)
qed

end
