(* ===== verification/Spec2Isabelle.thy ===== *)
theory Spec2Isabelle
  imports Prelude Wire_Frame Wire_Mux Chunking Text Nat_Stun Nat_Punch Live Delivery
    Link_Delivery Conversation Registry_Client Discovery Session Engine Connect Signals Ops System Host Invariance Simulation
    WellFormed Secrecy Authentic Conn_Ids Silence Queues Rtc_Drive Ladder
begin

text \<open>
  Verification of \<open>mdcore\<close>, the shared networking core of the my-domain clients
  (\<open>src/src\<close>, Rust). The core lets the devices of one account find each other on the LAN or
  through a registry server, set up links between them (direct datagrams, WebSocket, a punched
  UDP path, WebRTC), and exchange end-to-end encrypted chat and control messages.

  \<^bold>\<open>How the program is modelled.\<close> The engine's threads share state behind mutexes. The record
  \<open>net\<close> (theory \<open>World\<close>) has one field per shared handle of \<open>NetCtx\<close> and \<open>Engine\<close> in
  \<open>engine.rs\<close>, the three static connection counters, the queues of all \<open>mpsc\<close> channels and
  the list \<open>out\<close> of effects (UI events, socket operations and HTTP requests with their
  outcomes, writes to the platform), in order. An operation is a function that takes a \<open>net\<close>
  and returns the new one with its result. A Rust \<open>Result\<close> is a sum, a panic (slice or index
  out of range, checked arithmetic in a debug build) is the value \<open>None\<close> of the type \<open>exec\<close>,
  a hash map is an association list without duplicate keys (\<open>hmap\<close>), integers keep their
  width as words, and strings are lists of byte characters, which is what the code's
  \<open>String\<close> holds. Third-party crates and the host are fields of the record \<open>env\<close>: argon2,
  XChaCha20-Poly1305, base64, serde_json, ureq, the clock, the random generator and the
  platform traits. The optional \<open>webrtc\<close> feature is on. What the outside answers is a function of the number of questions asked
  before (\<open>tick\<close>), so theorems hold for every sequence of answers. The few theorems that rely
  on a crate say so in a named hypothesis: \<open>sealing_lib\<close> (decryption inverts encryption),
  \<open>serde_lib\<close>, \<open>frame_lib\<close> and \<open>beacon_lib\<close> (parsing inverts printing); the theory \<open>Sample\<close>
  instantiates them with concrete functions for the witnesses.

  \<^bold>\<open>Theories, by part of the program.\<close>
  \<^item> \<open>Prelude\<close>: widths and byte order, \<open>exec\<close>, \<open>hmap\<close>, the locales \<open>step_system\<close> (a step
    function with an invariant) and the codec contract.
  \<^item> \<open>Wire_Frame\<close>, \<open>Wire_Mux\<close>: \<open>wire/frame.rs\<close>, \<open>wire/mux.rs\<close>, \<open>service.rs\<close>, the v2 frame codec
    and the channel allocator.
  \<^item> \<open>Chunking\<close>: fragmentation and reassembly over UDP, \<open>send_chunked\<close> and \<open>reasm_feed\<close> of
    \<open>transport/punch.rs\<close>.
  \<^item> \<open>Text\<close>: the string functions of the standard library the code uses (\<open>trim\<close>, case, IPv4
    addresses, decimal numbers).
  \<^item> \<open>Nat_Stun\<close>, \<open>Nat_Punch\<close>: \<open>nat/stun.rs\<close>, \<open>nat/punch.rs\<close> and \<open>confirm_round_trip\<close>.
  \<^item> \<open>Data\<close>: \<open>model.rs\<close>, \<open>signal.rs\<close>, \<open>events.rs\<close>, JSON values, and the records of \<open>registry.rs\<close>.
  \<^item> \<open>World\<close>, \<open>Crypto\<close>: the shared state, the environment and \<open>crypto.rs\<close>.
  \<^item> \<open>Live\<close>: the live-link registry of \<open>transport/mod.rs\<close> and the abstract UI \<open>ui_step\<close>.
  \<^item> \<open>Send\<close>, \<open>Receive\<close>, \<open>Delivery\<close>: the send and receive pipelines of \<open>transport/mod.rs\<close>, and both
    ends together.
  \<^item> \<open>Features\<close>: the control-message registry and its handlers (\<open>features/\<close>). The locale
    \<open>control_handler\<close> states what every handler must respect (the \<open>ControlHandler\<close> trait's
    unwritten contract); it is interpreted on each of the six handlers and on the dispatcher.
  \<^item> \<open>Link_Ws\<close>, \<open>Link_Punch\<close>, \<open>Link_Rtc\<close>: the three link threads (\<open>transport/ws.rs\<close>, \<open>punch.rs\<close>,
    \<open>rtc.rs\<close>), turn by turn; \<open>Links\<close>: who owns which channel; \<open>Link_Delivery\<close>: messages over
    links, and links displacing one another. \<open>Conversation\<close>: the locale \<open>carrier\<close>, what a link
    owes the messages put on it, interpreted on the WebSocket and the WebRTC thread.
  \<^item> \<open>Registry_Client\<close>, \<open>Discovery\<close>: \<open>registry.rs\<close> and \<open>discovery.rs\<close>.
  \<^item> \<open>Session\<close>, \<open>Engine\<close>: the public methods of \<open>Engine\<close> and its three background loops
    (\<open>engine.rs\<close>); \<open>Host\<close>: the default platform, the threads \<open>Engine::start\<close> spawns, the error
    type and the two streaming services (\<open>platform.rs\<close>, \<open>error.rs\<close>, \<open>services/\<close>).
  \<^item> \<open>Connect\<close>, \<open>Signals\<close>: the connection ladder (\<open>run_connect_ladder\<close>) and the responder side
    (\<open>on_signal\<close>) of \<open>engine.rs\<close>. What the other threads do while the ladder pauses is a
    parameter; the locale \<open>bystander\<close> states what the ladder relies on.
  \<^item> \<open>Ops\<close>, \<open>System\<close>: the program as a whole. \<open>net_step\<close> collects the operations, \<open>sys_step\<close>
    interleaves them with the turns of all link threads and waiting calls, \<open>reachable\<close> are the
    states of its runs from \<open>engine_start\<close>.
  \<^item> \<open>Invariance\<close>: the locale \<open>step_law\<close>. Its assumptions are the primitive changes the code
    makes to the shared state; its lemmas carry a relation from them to every operation and
    every step. It is interpreted seven times: in \<open>Simulation\<close> on the growth of the effects and
    on the refinement of the abstract UI, in \<open>WellFormed\<close> on the type invariant of the tables,
    in \<open>Secrecy\<close> on confidentiality and in \<open>Authentic\<close> on authenticity, in \<open>Conn_Ids\<close> on the
    connection counters, in \<open>Queues\<close> on the order of the channels. \<open>Silence\<close> follows one link
    from the heartbeat that evicts its peer to the end of its thread.
  \<^item> \<open>Rtc_Drive\<close>: the WebRTC loop with its \<open>str0m\<close> engine as a parameter, and its refinement of
    the thread in \<open>Link_Rtc\<close>. \<open>Ladder\<close> interprets \<open>bystander\<close> on the program's own steps.

  \<^bold>\<open>What the theorems show.\<close> Messages arrive: over datagrams (C1), in order and once over
  WebSockets (C3) and WebRTC (C5), over punched links (C4), among interleaved traffic (C14),
  through channels that are FIFO queues in every run (C12). Nothing leaves in the clear in any
  run (C6) and nothing is shown as readable that no key holder wrote (C7). The UI is told the
  truth: in every reachable state the events emitted rebuild the live registry (C2, C23), the
  tables stay well formed (C24), registered links run (C9) and end without touching others'
  registrations (C10), the heartbeat evicts exactly the stale ones (C17), whose threads then
  end (C11). The WebRTC loop returns and is a thread of the system (C13). Remote input is
  confined: no bytes from the network (C15), no datagram (C16, C32), no signal (C22) can change
  or stop more than the code means to. Set-up ends and reports truthfully (C8, C18),
  negotiations exchange exactly the candidates (C19), a confirmed path works both ways (C21).
  Control messages go where they should and are answered (C25, C26). The codecs and parsers are exact (C20,
  C31, C34). Sessions, keys, the peer table, discovery and the clipboard do what their callers
  expect (C27 to C30, C35). C36 to C40 state behaviour that the code has and does not mean to
  have.

  \<^bold>\<open>Bounds.\<close> Polling loops with a deadline (\<open>hole_punch\<close>, \<open>confirm_round_trip\<close>,
  \<open>stun_binding\<close>) run over the list of what their socket calls returned, with the clock
  readings, and are total on it. The inner loop of \<open>drive\<close> has no bound of its own: it is a
  partial function, total under the hypothesis \<open>settles\<close>, which states the documented
  behaviour of \<open>poll_output\<close>. C10 needs that fewer than a million channels have been made,
  since the WebSocket numbers reach those of the punched links then. \<open>wait_live\<close> counts its 100 ms pauses down; the ladder as a
  whole pauses at most 372 times (C18). Everything else is structural recursion, or has a
  measure.

  \<^bold>\<open>Granularity.\<close> One engine call, one turn of a link thread and one iteration of a loop are
  atomic, except where the theorems are about what happens in between: the two closing steps
  of a WebSocket thread, a clipboard pull and the ladder's pauses are separate steps.

  \<^bold>\<open>Not modelled.\<close> The internals of third-party crates, among them the WebSocket protocol of
  tungstenite and the ICE, DTLS and SCTP of str0m. The time blocking calls take. The traits of
  \<open>capabilities.rs\<close> and \<open>platform.rs\<close> beyond their answers and defaults (\<open>AudioIo\<close> and the other
  three media traits have no methods); the module declarations; poisoned mutexes, since no
  modelled code panics while it holds one.
\<close>

end
